theory Spec2Isabelle
  imports Complex_Main
begin

section \<open>Faults\<close>

text \<open>
  The C++ core has no exceptions of its own.  What can go wrong is a failed
  \<^verbatim>\<open>assert\<close> (the process aborts), an index outside a \<^verbatim>\<open>std::vector\<close>, a
  dereferenced null pointer, an integer remainder by zero, or a signed \<^verbatim>\<open>int\<close> that is
  incremented beyond its largest value.  Each of them ends the computation; the model
  returns them as the left summand of a sum type.
  Assertions are modelled as enabled, as in a build that does not define \<^verbatim>\<open>NDEBUG\<close>.
\<close>

datatype fault = AssertionFailed | OutOfBounds | NullPointer | DivisionByZero | IntegerOverflow

text \<open>A counted \<^verbatim>\<open>for\<close> loop whose body may fault: the first fault ends the loop.\<close>

fun for_each :: "nat list \<Rightarrow> (nat \<Rightarrow> 's \<Rightarrow> fault + 's) \<Rightarrow> 's \<Rightarrow> fault + 's" where
  "for_each [] body s = Inr s"
| "for_each (i # is) body s =
     (case body i s of Inl e \<Rightarrow> Inl e | Inr s' \<Rightarrow> for_each is body s')"

section \<open>Tensor (core/tensor.h)\<close>

text \<open>
  \<^verbatim>\<open>struct Tensor { int rows; int cols; std::vector<float> data; }\<close>.
  The dimensions are natural numbers here: the constructors allocate \<^verbatim>\<open>rows * cols\<close>
  cells, which a negative dimension does not survive.  A \<^verbatim>\<open>float\<close> is idealised as a
  real number: rounding, overflow to infinity, underflow to zero and NaN are not modelled.
\<close>

record Tensor =
  rows :: nat
  cols :: nat
  data :: "real list"

definition Tensor0 :: Tensor where
  "Tensor0 = \<lparr>rows = 0, cols = 0, data = []\<rparr>"

definition Tensor2 :: "nat \<Rightarrow> nat \<Rightarrow> Tensor" where
  "Tensor2 r c = \<lparr>rows = r, cols = c, data = replicate (r * c) 0\<rparr>"

definition Tensor1 :: "nat \<Rightarrow> Tensor" where
  "Tensor1 n = \<lparr>rows = 1, cols = n, data = replicate n 0\<rparr>"

text \<open>\<^verbatim>\<open>operator()(r, c)\<close>, read and write, on the row-major buffer.\<close>

definition cell :: "Tensor \<Rightarrow> nat \<Rightarrow> nat \<Rightarrow> real" where
  "cell A r c = data A ! (r * cols A + c)"

definition set_cell :: "Tensor \<Rightarrow> nat \<Rightarrow> nat \<Rightarrow> real \<Rightarrow> Tensor" where
  "set_cell A r c x = A\<lparr>data := (data A)[r * cols A + c := x]\<rparr>"

text \<open>The invariant every constructor establishes: the buffer has \<open>rows * cols\<close> cells.\<close>

definition wf_tensor :: "Tensor \<Rightarrow> bool" where
  "wf_tensor A \<longleftrightarrow> length (data A) = rows A * cols A"

text \<open>
  Reads through \<^verbatim>\<open>operator()\<close> stay inside the buffer whenever the tensor is well
  formed and the indices are below its dimensions.  Outside, C++ leaves the behaviour
  undefined; the model makes the fault explicit where an input that satisfies the
  constructors' invariants can reach it (labels, empty tensors, null pointers, assertions),
  and the theorems below carry the well-formedness hypotheses for the rest.
\<close>

text \<open>\<^verbatim>\<open>matmul(A, B)\<close>: the triple loop, with its assertion.\<close>

definition matmul :: "Tensor \<Rightarrow> Tensor \<Rightarrow> fault + Tensor" where
  "matmul A B =
     (if cols A \<noteq> rows B then Inl AssertionFailed
      else Inr (fold (\<lambda>i. fold (\<lambda>j C.
                  set_cell C i j (fold (\<lambda>k sum. sum + cell A i k * cell B k j) [0..<cols A] 0))
                  [0..<cols B])
                [0..<rows A] (Tensor2 (rows A) (cols B))))"

text \<open>\<^verbatim>\<open>add_bias(A, b)\<close>: \<^verbatim>\<open>A(i, j) += b[j]\<close> in place.\<close>

definition add_bias :: "Tensor \<Rightarrow> real list \<Rightarrow> fault + Tensor" where
  "add_bias A b =
     (if cols A \<noteq> length b then Inl AssertionFailed
      else Inr (fold (\<lambda>i. fold (\<lambda>j A. set_cell A i j (cell A i j + b ! j)) [0..<cols A])
                [0..<rows A] A))"

text \<open>\<^verbatim>\<open>transpose(A)\<close>: \<^verbatim>\<open>T(j, i) = A(i, j)\<close>.\<close>

definition transpose_t :: "Tensor \<Rightarrow> Tensor" where
  "transpose_t A =
     fold (\<lambda>i. fold (\<lambda>j T. set_cell T j i (cell A i j)) [0..<cols A])
       [0..<rows A] (Tensor2 (cols A) (rows A))"

text \<open>
  \<^verbatim>\<open>argmax(A)\<close>.  The scan starts from \<^verbatim>\<open>A(0, 0)\<close>, which an empty buffer does not
  have, visits every row, and keeps the flat index of the first strictly larger cell.
  A one-row tensor returns that index; any other returns it modulo the number of columns.
\<close>

definition argmax_scan :: "Tensor \<Rightarrow> real \<times> nat" where
  "argmax_scan A =
     fold (\<lambda>i. fold (\<lambda>j (max_val, max_idx).
              if cell A i j > max_val then (cell A i j, i * cols A + j)
              else (max_val, max_idx))
            [0..<cols A])
       [0..<rows A] (cell A 0 0, 0)"

definition argmax :: "Tensor \<Rightarrow> fault + int" where
  "argmax A =
     (if data A = [] then Inl OutOfBounds
      else let max_idx = snd (argmax_scan A) in
        if rows A = 1 then Inr (int max_idx)
        else if cols A = 0 then Inl DivisionByZero
        else Inr (int (max_idx mod cols A)))"

section \<open>Activation (core/activations.h)\<close>

datatype ActivationType =
  STEP | LINEAR | RELU | LEAKY_RELU | PRELU | SIGMOID | TANH | ELU | SELU | GELU | SWISH
  | SOFTMAX

text \<open>
  The fields \<^verbatim>\<open>type\<close>, \<^verbatim>\<open>alpha\<close>, \<^verbatim>\<open>beta\<close>, \<^verbatim>\<open>input_cache\<close> and \<^verbatim>\<open>output_cache\<close>;
  \<^verbatim>\<open>type\<close> and \<^verbatim>\<open>input_cache\<close> carry a prefix because other classes use the same names.
\<close>

record Activation =
  act_type :: ActivationType
  alpha :: real
  beta :: real
  act_input_cache :: Tensor
  output_cache :: Tensor

definition Activation_new :: "ActivationType \<Rightarrow> Activation" where
  "Activation_new t =
     \<lparr>act_type = t, alpha = 0.01, beta = 1, act_input_cache = Tensor0, output_cache = Tensor0\<rparr>"

definition activate :: "Activation \<Rightarrow> real \<Rightarrow> real" where
  "activate a x =
     (case act_type a of
        STEP \<Rightarrow> (if x > 0 then 1 else 0)
      | LINEAR \<Rightarrow> x
      | RELU \<Rightarrow> max 0 x
      | LEAKY_RELU \<Rightarrow> (if x > 0 then x else alpha a * x)
      | PRELU \<Rightarrow> (if x > 0 then x else alpha a * x)
      | SIGMOID \<Rightarrow> 1 / (1 + exp (- x))
      | TANH \<Rightarrow> tanh x
      | ELU \<Rightarrow> (if x \<ge> 0 then x else alpha a * (exp x - 1))
      | SELU \<Rightarrow> 1.050700987 * (if x > 0 then x else 1.673263242 * (exp x - 1))
      | GELU \<Rightarrow> 0.5 * x * (1 + tanh (sqrt (2 / pi) * (x + 0.044715 * x ^ 3)))
      | SWISH \<Rightarrow> x / (1 + exp (- beta a * x))
      | SOFTMAX \<Rightarrow> x)"

definition derivative :: "Activation \<Rightarrow> real \<Rightarrow> real \<Rightarrow> real" where
  "derivative a x y =
     (case act_type a of
        STEP \<Rightarrow> 0
      | LINEAR \<Rightarrow> 1
      | RELU \<Rightarrow> (if x > 0 then 1 else 0)
      | LEAKY_RELU \<Rightarrow> (if x > 0 then 1 else alpha a)
      | PRELU \<Rightarrow> (if x > 0 then 1 else alpha a)
      | SIGMOID \<Rightarrow> y * (1 - y)
      | TANH \<Rightarrow> 1 - y * y
      | ELU \<Rightarrow> (if x \<ge> 0 then 1 else alpha a * exp x)
      | SELU \<Rightarrow> (if x > 0 then 1.050700987 else 1.050700987 * 1.673263242 * exp x)
      | GELU \<Rightarrow> 0.5 * (1 + tanh (sqrt (2 / pi) * (x + 0.044715 * x ^ 3)))
      | SWISH \<Rightarrow> (let sig = 1 / (1 + exp (- beta a * x))
                  in sig + beta a * x * sig * (1 - sig))
      | SOFTMAX \<Rightarrow> 1)"

text \<open>
  The private row-wise \<^verbatim>\<open>softmax\<close>, in place.  Each row starts by reading
  \<^verbatim>\<open>X(i, 0)\<close>, which lies outside the buffer of a tensor without columns.
\<close>

definition softmax_row :: "nat \<Rightarrow> Tensor \<Rightarrow> fault + Tensor" where
  "softmax_row i X =
     (if length (data X) \<le> i * cols X then Inl OutOfBounds
      else
        let max_val = fold (\<lambda>j max_val. max max_val (cell X i j)) [1..<cols X] (cell X i 0);
            (X1, sum) = fold (\<lambda>j (X, sum).
                           let X' = set_cell X i j (exp (cell X i j - max_val))
                           in (X', sum + cell X' i j))
                         [0..<cols X] (X, 0)
        in Inr (fold (\<lambda>j X. set_cell X i j (cell X i j / sum)) [0..<cols X] X1))"

definition softmax :: "Tensor \<Rightarrow> fault + Tensor" where
  "softmax X = for_each [0..<rows X] softmax_row X"

text \<open>\<^verbatim>\<open>Activation::forward\<close> returns the output and the object with both caches set.\<close>

definition act_forward :: "Activation \<Rightarrow> Tensor \<Rightarrow> fault + (Tensor \<times> Activation)" where
  "act_forward a X =
     (let Y = fold (\<lambda>i. fold (\<lambda>j Y. set_cell Y i j (activate a (cell X i j))) [0..<cols X])
                [0..<rows X] (Tensor2 (rows X) (cols X))
      in case (if act_type a = SOFTMAX then softmax Y else Inr Y) of
           Inl e \<Rightarrow> Inl e
         | Inr Y' \<Rightarrow> Inr (Y', a\<lparr>act_input_cache := X, output_cache := Y'\<rparr>))"

text \<open>\<^verbatim>\<open>Activation::backward\<close> changes no field, so only the gradient is returned.\<close>

definition act_backward :: "Activation \<Rightarrow> Tensor \<Rightarrow> fault + Tensor" where
  "act_backward a dOut =
     (if rows dOut \<noteq> rows (output_cache a) then Inl AssertionFailed
      else if cols dOut \<noteq> cols (output_cache a) then Inl AssertionFailed
      else if act_type a = SOFTMAX then Inr dOut
      else Inr (fold (\<lambda>i. fold (\<lambda>j dX.
                    set_cell dX i j
                      (cell dOut i j *
                       derivative a (cell (act_input_cache a) i j) (cell (output_cache a) i j)))
                  [0..<cols dOut])
                [0..<rows dOut] (Tensor2 (rows dOut) (cols dOut))))"

section \<open>Optimizers (core/optimizers.h)\<close>

text \<open>
  \<^verbatim>\<open>struct Parameter { std::vector<float> data; std::vector<float> grad; }\<close>; the field
  names carry a prefix because \<^verbatim>\<open>Tensor\<close> has a \<^verbatim>\<open>data\<close> field too.
\<close>

record Parameter =
  param_data :: "real list"
  param_grad :: "real list"

text \<open>
  The optimizers key their state by \<^verbatim>\<open>Parameter*\<close>.  A parameter is therefore passed
  as its address (its identity) together with its current contents, and \<^verbatim>\<open>step\<close>
  returns the optimizer and the updated contents.  \<^verbatim>\<open>operator[]\<close> on the
  \<^verbatim>\<open>unordered_map\<close> creates an empty vector for a new key.
\<close>

type_synonym addr = nat

definition lookup_vec :: "(addr \<rightharpoonup> real list) \<Rightarrow> addr \<Rightarrow> real list" where
  "lookup_vec tab a = (case tab a of None \<Rightarrow> [] | Some xs \<Rightarrow> xs)"

text \<open>\<^verbatim>\<open>std::vector::resize(n, 0.0f)\<close>\<close>

definition resize :: "nat \<Rightarrow> real list \<Rightarrow> real list" where
  "resize n xs = take n xs @ replicate (n - length xs) 0"

record SGDOptimizer =
  sgd_lr :: real
  momentum :: real
  velocity :: "addr \<rightharpoonup> real list"

definition SGD_new :: "real \<Rightarrow> SGDOptimizer" where
  "SGD_new learning_rate = \<lparr>sgd_lr = learning_rate, momentum = 0, velocity = Map.empty\<rparr>"

definition SGD_new_momentum :: "real \<Rightarrow> real \<Rightarrow> SGDOptimizer" where
  "SGD_new_momentum learning_rate momentum_factor =
     \<lparr>sgd_lr = learning_rate, momentum = momentum_factor, velocity = Map.empty\<rparr>"

definition sgd_step :: "SGDOptimizer \<Rightarrow> addr \<Rightarrow> Parameter \<Rightarrow> SGDOptimizer \<times> Parameter" where
  "sgd_step opt a param =
     (if momentum opt > 0 then
        let v0 = lookup_vec (velocity opt) a;
            v1 = (if v0 = [] then resize (length (param_data param)) v0 else v0);
            (v2, d2) = fold (\<lambda>i (v, d).
                          let v' = v[i := momentum opt * v ! i - sgd_lr opt * param_grad param ! i]
                          in (v', d[i := d ! i + v' ! i]))
                        [0..<length (param_data param)] (v1, param_data param)
        in (opt\<lparr>velocity := (velocity opt)(a \<mapsto> v2)\<rparr>, param\<lparr>param_data := d2\<rparr>)
      else
        (opt, param\<lparr>param_data :=
                fold (\<lambda>i d. d[i := d ! i - sgd_lr opt * param_grad param ! i])
                  [0..<length (param_data param)] (param_data param)\<rparr>))"

record RMSPropOptimizer =
  rms_lr :: real
  rms_beta :: real
  rms_eps :: real
  cache :: "addr \<rightharpoonup> real list"

definition rmsprop_step ::
  "RMSPropOptimizer \<Rightarrow> addr \<Rightarrow> Parameter \<Rightarrow> RMSPropOptimizer \<times> Parameter" where
  "rmsprop_step opt a param =
     (let v0 = lookup_vec (cache opt) a;
          v1 = (if v0 = [] then resize (length (param_data param)) v0 else v0);
          (v2, d2) = fold (\<lambda>i (v, d).
                        let g = param_grad param ! i;
                            v' = v[i := rms_beta opt * v ! i + (1 - rms_beta opt) * g * g]
                        in (v', d[i := d ! i - rms_lr opt * g / (sqrt (v' ! i) + rms_eps opt)]))
                      [0..<length (param_data param)] (v1, param_data param)
      in (opt\<lparr>cache := (cache opt)(a \<mapsto> v2)\<rparr>, param\<lparr>param_data := d2\<rparr>))"

text \<open>
  \<^verbatim>\<open>AdamOptimizer\<close>: \<^verbatim>\<open>int timestep\<close> is a field of the optimizer object; the two
  moment tables \<^verbatim>\<open>m\<close> and \<^verbatim>\<open>v\<close> are keyed by parameter.  The counter is a 32-bit
  signed integer: \<^verbatim>\<open>timestep++\<close> at 2147483647 overflows, which \<open>adam_step\<close> returns as
  a fault.
\<close>

record AdamOptimizer =
  adam_lr :: real
  beta1 :: real
  beta2 :: real
  adam_eps :: real
  timestep :: int
  m_tab :: "addr \<rightharpoonup> real list"
  v_tab :: "addr \<rightharpoonup> real list"

definition Adam_new :: "real \<Rightarrow> AdamOptimizer" where
  "Adam_new learning_rate =
     \<lparr>adam_lr = learning_rate, beta1 = 0.9, beta2 = 0.999, adam_eps = 1 / 10 ^ 8,
      timestep = 0, m_tab = Map.empty, v_tab = Map.empty\<rparr>"

text \<open>The body of the loop over the cells of one parameter, for the step count \<open>t\<close>.\<close>

definition adam_cell ::
  "AdamOptimizer \<Rightarrow> int \<Rightarrow> real list \<Rightarrow> nat \<Rightarrow>
   real list \<times> real list \<times> real list \<Rightarrow> real list \<times> real list \<times> real list" where
  "adam_cell opt t g i = (\<lambda>(m_vec, v_vec, d).
     let m' = m_vec[i := beta1 opt * m_vec ! i + (1 - beta1 opt) * g ! i];
         v' = v_vec[i := beta2 opt * v_vec ! i + (1 - beta2 opt) * g ! i * g ! i];
         m_hat = m' ! i / (1 - power_int (beta1 opt) t);
         v_hat = v' ! i / (1 - power_int (beta2 opt) t)
     in (m', v', d[i := d ! i - adam_lr opt * m_hat / (sqrt v_hat + adam_eps opt)]))"

definition adam_step ::
  "AdamOptimizer \<Rightarrow> addr \<Rightarrow> Parameter \<Rightarrow> fault + (AdamOptimizer \<times> Parameter)" where
  "adam_step opt a param =
     (if 2147483647 \<le> timestep opt then Inl IntegerOverflow
      else
        let t = timestep opt + 1;
            m0 = lookup_vec (m_tab opt) a;
            v0 = lookup_vec (v_tab opt) a;
            n = length (param_data param);
            (m1, v1) = (if m0 = [] then (resize n m0, resize n v0) else (m0, v0));
            (m2, v2, d2) = fold (adam_cell opt t (param_grad param)) [0..<n]
                             (m1, v1, param_data param)
        in Inr (opt\<lparr>timestep := t, m_tab := (m_tab opt)(a \<mapsto> m2),
                    v_tab := (v_tab opt)(a \<mapsto> v2)\<rparr>,
                param\<lparr>param_data := d2\<rparr>))"

section \<open>DenseLayer (core/dense\_layer.h)\<close>

text \<open>
  The fields \<^verbatim>\<open>W\<close>, \<^verbatim>\<open>b\<close>, \<^verbatim>\<open>grad_W\<close>, \<^verbatim>\<open>grad_b\<close>, \<^verbatim>\<open>W_param\<close>, \<^verbatim>\<open>b_param\<close>,
  \<^verbatim>\<open>input_cache\<close> and \<^verbatim>\<open>activation\<close>; the bias \<^verbatim>\<open>b\<close> is called \<open>b_vec\<close>.
\<close>

record DenseLayer =
  W :: Tensor
  b_vec :: "real list"
  grad_W :: Tensor
  grad_b :: "real list"
  W_param :: Parameter
  b_param :: Parameter
  input_cache :: Tensor
  activation :: Activation

definition DenseLayer_new :: "nat \<Rightarrow> nat \<Rightarrow> ActivationType \<Rightarrow> DenseLayer" where
  "DenseLayer_new input_dim output_dim act =
     \<lparr>W = Tensor2 input_dim output_dim,
      b_vec = replicate output_dim 0,
      grad_W = Tensor2 input_dim output_dim,
      grad_b = replicate output_dim 0,
      W_param = \<lparr>param_data = data (Tensor2 input_dim output_dim),
                 param_grad = data (Tensor2 input_dim output_dim)\<rparr>,
      b_param = \<lparr>param_data = replicate output_dim 0, param_grad = replicate output_dim 0\<rparr>,
      input_cache = Tensor0,
      activation = Activation_new act\<rparr>"

definition sync_gradients :: "DenseLayer \<Rightarrow> DenseLayer" where
  "sync_gradients l =
     l\<lparr>W_param := (W_param l)\<lparr>param_grad := data (grad_W l)\<rparr>,
       b_param := (b_param l)\<lparr>param_grad := grad_b l\<rparr>\<rparr>"

definition sync_weights :: "DenseLayer \<Rightarrow> DenseLayer" where
  "sync_weights l =
     l\<lparr>W := (W l)\<lparr>data := param_data (W_param l)\<rparr>, b_vec := param_data (b_param l)\<rparr>"

definition dense_forward :: "DenseLayer \<Rightarrow> Tensor \<Rightarrow> fault + (Tensor \<times> DenseLayer)" where
  "dense_forward l X =
     (if cols X \<noteq> rows (W l) then Inl AssertionFailed
      else case matmul X (W l) of
        Inl e \<Rightarrow> Inl e
      | Inr out \<Rightarrow>
          (case add_bias out (b_vec l) of
             Inl e \<Rightarrow> Inl e
           | Inr out' \<Rightarrow>
               (case act_forward (activation l) out' of
                  Inl e \<Rightarrow> Inl e
                | Inr (Y, act') \<Rightarrow> Inr (Y, l\<lparr>input_cache := X, activation := act'\<rparr>))))"

text \<open>
  The bias gradient: \<^verbatim>\<open>std::fill\<close> with zero, then \<^verbatim>\<open>grad_b[j] += dOut_activated(i, j)\<close>
  over all rows and columns.
\<close>

definition bias_grad :: "real list \<Rightarrow> Tensor \<Rightarrow> real list" where
  "bias_grad gb dAct =
     fold (\<lambda>i. fold (\<lambda>j gb. gb[j := gb ! j + cell dAct i j]) [0..<cols dAct])
       [0..<rows dAct] (replicate (length gb) 0)"

definition dense_backward :: "DenseLayer \<Rightarrow> Tensor \<Rightarrow> fault + (Tensor \<times> DenseLayer)" where
  "dense_backward l dOut =
     (if cols dOut \<noteq> cols (W l) then Inl AssertionFailed
      else if rows dOut \<noteq> rows (input_cache l) then Inl AssertionFailed
      else case act_backward (activation l) dOut of
        Inl e \<Rightarrow> Inl e
      | Inr dOut_activated \<Rightarrow>
          (case matmul (transpose_t (input_cache l)) dOut_activated of
             Inl e \<Rightarrow> Inl e
           | Inr gW \<Rightarrow>
               let l1 = l\<lparr>grad_W := gW\<rparr>;
                   l2 = l1\<lparr>grad_b := bias_grad (grad_b l1) dOut_activated\<rparr>;
                   l3 = sync_gradients l2
               in (case matmul dOut_activated (transpose_t (W l3)) of
                     Inl e \<Rightarrow> Inl e
                   | Inr dX \<Rightarrow> Inr (dX, l3))))"

section \<open>Loss (core/loss\_functions.h)\<close>

datatype LossType =
  MEAN_SQUARED_ERROR | BINARY_CROSS_ENTROPY | CATEGORICAL_CROSS_ENTROPY
  | SPARSE_CATEGORICAL_CROSS_ENTROPY

record Loss =
  loss_type :: LossType
  num_classes :: int
  eps :: real

definition Loss_new :: "LossType \<Rightarrow> int \<Rightarrow> Loss" where
  "Loss_new t classes = \<lparr>loss_type = t, num_classes = classes, eps = 1 / 10 ^ 7\<rparr>"

definition mse :: "Tensor \<Rightarrow> Tensor \<Rightarrow> real" where
  "mse y_pred y_true =
     fold (\<lambda>i. fold (\<lambda>j loss. loss + (cell y_pred i j - cell y_true i j) ^ 2) [0..<cols y_pred])
       [0..<rows y_pred] 0
     / real (rows y_pred * cols y_pred)"

definition mse_backward :: "Tensor \<Rightarrow> Tensor \<Rightarrow> Tensor" where
  "mse_backward y_pred y_true =
     (let scale = 2 / real (rows y_pred * cols y_pred)
      in fold (\<lambda>i. fold (\<lambda>j grad.
                 set_cell grad i j (scale * (cell y_pred i j - cell y_true i j)))
               [0..<cols y_pred])
           [0..<rows y_pred] (Tensor2 (rows y_pred) (cols y_pred)))"

text \<open>\<^verbatim>\<open>std::clamp(v, lo, hi)\<close>\<close>

definition clamp :: "real \<Rightarrow> real \<Rightarrow> real \<Rightarrow> real" where
  "clamp v lo hi = (if v < lo then lo else if hi < v then hi else v)"

definition binary_cross_entropy :: "Loss \<Rightarrow> Tensor \<Rightarrow> Tensor \<Rightarrow> real" where
  "binary_cross_entropy L y_pred y_true =
     fold (\<lambda>i loss.
        let p = clamp (cell y_pred i 0) (eps L) (1 - eps L);
            y = cell y_true i 0
        in loss + - (y * ln p + (1 - y) * ln (1 - p)))
       [0..<rows y_pred] 0
     / real (rows y_pred)"

definition binary_cross_entropy_backward :: "Loss \<Rightarrow> Tensor \<Rightarrow> Tensor \<Rightarrow> Tensor" where
  "binary_cross_entropy_backward L y_pred y_true =
     fold (\<lambda>i grad.
        let p = clamp (cell y_pred i 0) (eps L) (1 - eps L);
            y = cell y_true i 0
        in set_cell grad i 0 ((p - y) / (p * (1 - p))))
       [0..<rows y_pred] (Tensor2 (rows y_pred) 1)"

definition categorical_cross_entropy :: "Loss \<Rightarrow> Tensor \<Rightarrow> Tensor \<Rightarrow> real" where
  "categorical_cross_entropy L y_pred y_true =
     fold (\<lambda>i. fold (\<lambda>j loss.
              if cell y_true i j > 0 then loss + - ln (max (cell y_pred i j) (eps L)) else loss)
            [0..<cols y_pred])
       [0..<rows y_pred] 0
     / real (rows y_pred)"

definition categorical_cross_entropy_backward :: "Tensor \<Rightarrow> Tensor \<Rightarrow> Tensor" where
  "categorical_cross_entropy_backward y_pred y_true =
     fold (\<lambda>i. fold (\<lambda>j grad.
              set_cell grad i j ((cell y_pred i j - cell y_true i j) / real (rows y_pred)))
            [0..<cols y_pred])
       [0..<rows y_pred] (Tensor2 (rows y_pred) (cols y_pred))"

text \<open>
  The sparse kind reads the label \<^verbatim>\<open>y_true[i]\<close> from the label vector and addresses
  the cell \<^verbatim>\<open>(i, y_true[i])\<close> in the flat buffer with \<^verbatim>\<open>int\<close> arithmetic; a missing
  label or a cell outside the buffer is a fault.
\<close>

definition label_index :: "Tensor \<Rightarrow> nat \<Rightarrow> int list \<Rightarrow> fault + nat" where
  "label_index A i y_true =
     (if length y_true \<le> i then Inl OutOfBounds
      else let k = int (i * cols A) + y_true ! i in
        if k < 0 \<or> int (length (data A)) \<le> k then Inl OutOfBounds
        else Inr (nat k))"

definition sparse_categorical_cross_entropy :: "Loss \<Rightarrow> Tensor \<Rightarrow> int list \<Rightarrow> fault + real" where
  "sparse_categorical_cross_entropy L y_pred y_true =
     (case for_each [0..<rows y_pred]
             (\<lambda>i loss. case label_index y_pred i y_true of
                          Inl e \<Rightarrow> Inl e
                        | Inr k \<Rightarrow> let p = max (data y_pred ! k) (eps L)
                                   in Inr (loss + - ln p))
             0 of
        Inl e \<Rightarrow> Inl e
      | Inr loss \<Rightarrow> Inr (loss / real (rows y_pred)))"

text \<open>\<^verbatim>\<open>grad(i, y_true[i]) -= 1.0f\<close>\<close>

definition sub_label :: "Tensor \<Rightarrow> nat \<Rightarrow> int list \<Rightarrow> fault + Tensor" where
  "sub_label grad i y_true =
     (case label_index grad i y_true of
        Inl e \<Rightarrow> Inl e
      | Inr k \<Rightarrow> Inr (grad\<lparr>data := (data grad)[k := data grad ! k - 1]\<rparr>))"

text \<open>One round of the row loop: copy the row of the prediction, then subtract at the label.\<close>

definition scce_row :: "Tensor \<Rightarrow> int list \<Rightarrow> nat \<Rightarrow> Tensor \<Rightarrow> fault + Tensor" where
  "scce_row y_pred y_true i grad =
     sub_label (fold (\<lambda>j g. set_cell g i j (cell y_pred i j)) [0..<cols y_pred] grad) i y_true"

definition sparse_categorical_cross_entropy_backward :: "Tensor \<Rightarrow> int list \<Rightarrow> fault + Tensor" where
  "sparse_categorical_cross_entropy_backward y_pred y_true =
     (case for_each [0..<rows y_pred] (scce_row y_pred y_true)
             (Tensor2 (rows y_pred) (cols y_pred)) of
        Inl e \<Rightarrow> Inl e
      | Inr grad \<Rightarrow>
          let inv_batch = 1 / real (rows y_pred)
          in Inr (grad\<lparr>data := map (\<lambda>v. v * inv_batch) (data grad)\<rparr>))"

text \<open>
  \<^verbatim>\<open>Loss::forward\<close> and \<^verbatim>\<open>Loss::backward\<close>.  The dense target is a pointer with the
  default \<^verbatim>\<open>nullptr\<close>; the first three kinds dereference it without a test.
\<close>

definition loss_forward :: "Loss \<Rightarrow> Tensor \<Rightarrow> int list \<Rightarrow> Tensor option \<Rightarrow> fault + real" where
  "loss_forward L y_pred y_true_sparse y_true_dense =
     (case loss_type L of
        MEAN_SQUARED_ERROR \<Rightarrow>
          (case y_true_dense of None \<Rightarrow> Inl NullPointer
           | Some y_true \<Rightarrow> Inr (mse y_pred y_true))
      | BINARY_CROSS_ENTROPY \<Rightarrow>
          (case y_true_dense of None \<Rightarrow> Inl NullPointer
           | Some y_true \<Rightarrow> Inr (binary_cross_entropy L y_pred y_true))
      | CATEGORICAL_CROSS_ENTROPY \<Rightarrow>
          (case y_true_dense of None \<Rightarrow> Inl NullPointer
           | Some y_true \<Rightarrow> Inr (categorical_cross_entropy L y_pred y_true))
      | SPARSE_CATEGORICAL_CROSS_ENTROPY \<Rightarrow>
          sparse_categorical_cross_entropy L y_pred y_true_sparse)"

definition loss_backward :: "Loss \<Rightarrow> Tensor \<Rightarrow> int list \<Rightarrow> Tensor option \<Rightarrow> fault + Tensor" where
  "loss_backward L y_pred y_true_sparse y_true_dense =
     (case loss_type L of
        MEAN_SQUARED_ERROR \<Rightarrow>
          (case y_true_dense of None \<Rightarrow> Inl NullPointer
           | Some y_true \<Rightarrow> Inr (mse_backward y_pred y_true))
      | BINARY_CROSS_ENTROPY \<Rightarrow>
          (case y_true_dense of None \<Rightarrow> Inl NullPointer
           | Some y_true \<Rightarrow> Inr (binary_cross_entropy_backward L y_pred y_true))
      | CATEGORICAL_CROSS_ENTROPY \<Rightarrow>
          (case y_true_dense of None \<Rightarrow> Inl NullPointer
           | Some y_true \<Rightarrow> Inr (categorical_cross_entropy_backward y_pred y_true))
      | SPARSE_CATEGORICAL_CROSS_ENTROPY \<Rightarrow>
          sparse_categorical_cross_entropy_backward y_pred y_true_sparse)"

section \<open>Model (core/model.h)\<close>

text \<open>
  The model holds pointers: to its layers, to a loss and to an optimizer.  The layers
  live in a store, from addresses to layer objects, so that a layer added twice is one
  object.  The loss is immutable and is kept by value; the optimizer is only ever tested
  against \<^verbatim>\<open>nullptr\<close>, so its address is enough.
\<close>

type_synonym store = "addr \<Rightarrow> DenseLayer"

record Model =
  layers :: "addr list"
  loss_fn :: "Loss option"
  optimizer :: "addr option"

definition Model_new :: Model where
  "Model_new = \<lparr>layers = [], loss_fn = None, optimizer = None\<rparr>"

definition add :: "Model \<Rightarrow> addr \<Rightarrow> Model" where
  "add M layer = M\<lparr>layers := layers M @ [layer]\<rparr>"

definition compile :: "Model \<Rightarrow> Loss \<Rightarrow> addr \<Rightarrow> Model" where
  "compile M loss opt = M\<lparr>loss_fn := Some loss, optimizer := Some opt\<rparr>"

fun forward_layers :: "addr list \<Rightarrow> store \<Rightarrow> Tensor \<Rightarrow> fault + (Tensor \<times> store)" where
  "forward_layers [] st x = Inr (x, st)"
| "forward_layers (a # as) st x =
     (case dense_forward (st a) x of
        Inl e \<Rightarrow> Inl e
      | Inr (x', l') \<Rightarrow> forward_layers as (st(a := l')) x')"

definition forward_internal :: "Model \<Rightarrow> store \<Rightarrow> Tensor \<Rightarrow> fault + (Tensor \<times> store)" where
  "forward_internal M st input = forward_layers (layers M) st input"

text \<open>\<^verbatim>\<open>backward_internal\<close> walks the layers from the last to the first.\<close>

fun backward_layers :: "addr list \<Rightarrow> store \<Rightarrow> Tensor \<Rightarrow> fault + store" where
  "backward_layers [] st grad = Inr st"
| "backward_layers (a # as) st grad =
     (case dense_backward (st a) grad of
        Inl e \<Rightarrow> Inl e
      | Inr (grad', l') \<Rightarrow> backward_layers as (st(a := l')) grad')"

definition backward_internal :: "Model \<Rightarrow> store \<Rightarrow> Tensor \<Rightarrow> fault + store" where
  "backward_internal M st grad_output = backward_layers (rev (layers M)) st grad_output"

text \<open>\<^verbatim>\<open>optimizer_step\<close> has an empty body.\<close>

definition optimizer_step :: "Model \<Rightarrow> store \<Rightarrow> store" where
  "optimizer_step M st = st"

definition predict :: "Model \<Rightarrow> store \<Rightarrow> Tensor \<Rightarrow> fault + (Tensor \<times> store)" where
  "predict M st input = forward_internal M st input"

text \<open>
  One round of the inner loop of \<^verbatim>\<open>fit\<close>, for example \<open>i\<close>: forward, loss, accuracy,
  loss gradient, backward, update.  The loss is called with two arguments, which leaves
  its dense target at the default \<^verbatim>\<open>nullptr\<close>.  The state is the store of layers, the
  loss summed so far and the number of correct predictions.
\<close>

definition fit_example ::
  "Model \<Rightarrow> Loss \<Rightarrow> Tensor list \<Rightarrow> int list \<Rightarrow> nat \<Rightarrow> store \<times> real \<times> int \<Rightarrow>
   fault + (store \<times> real \<times> int)" where
  "fit_example M L X y i = (\<lambda>(st, epoch_loss, correct).
     case forward_internal M st (X ! i) of
       Inl e \<Rightarrow> Inl e
     | Inr (output, st1) \<Rightarrow>
         if length y \<le> i then Inl OutOfBounds
         else let y_vec = [y ! i] in
           (case loss_forward L output y_vec None of
              Inl e \<Rightarrow> Inl e
            | Inr loss \<Rightarrow>
                (case argmax output of
                   Inl e \<Rightarrow> Inl e
                 | Inr k \<Rightarrow>
                     let correct' = (if k = y ! i then correct + 1 else correct) in
                     (case loss_backward L output y_vec None of
                        Inl e \<Rightarrow> Inl e
                      | Inr grad \<Rightarrow>
                          (case backward_internal M st1 grad of
                             Inl e \<Rightarrow> Inl e
                           | Inr st2 \<Rightarrow>
                               Inr (optimizer_step M st2, epoch_loss + loss, correct'))))))"

text \<open>
  One epoch: the loop over the examples, then the line printed for the epoch (its number,
  the mean loss and the accuracy), appended to the lines printed so far.
\<close>

definition fit_epoch ::
  "Model \<Rightarrow> Loss \<Rightarrow> Tensor list \<Rightarrow> int list \<Rightarrow> nat \<Rightarrow> store \<times> (int \<times> real \<times> real) list \<Rightarrow>
   fault + (store \<times> (int \<times> real \<times> real) list)" where
  "fit_epoch M L X y epoch = (\<lambda>(st, out).
     case for_each [0..<length X] (fit_example M L X y) (st, 0, 0) of
       Inl e \<Rightarrow> Inl e
     | Inr (st', epoch_loss, correct) \<Rightarrow>
         Inr (st', out @ [(int epoch + 1, epoch_loss / real (length X),
                           real_of_int correct / real (length X))]))"

text \<open>\<^verbatim>\<open>Model::fit\<close>; the parameter \<^verbatim>\<open>batch_size\<close> is not used by the body.\<close>

definition fit ::
  "Model \<Rightarrow> store \<Rightarrow> Tensor list \<Rightarrow> int list \<Rightarrow> int \<Rightarrow> int \<Rightarrow>
   fault + (store \<times> (int \<times> real \<times> real) list)" where
  "fit M st X y epochs batch_size =
     (case (loss_fn M, optimizer M) of
        (Some L, Some opt) \<Rightarrow> for_each [0..<nat epochs] (fit_epoch M L X y) (st, [])
      | _ \<Rightarrow> Inl AssertionFailed)"

definition evaluate_example ::
  "Model \<Rightarrow> Loss \<Rightarrow> Tensor list \<Rightarrow> int list \<Rightarrow> nat \<Rightarrow> store \<times> real \<times> int \<Rightarrow>
   fault + (store \<times> real \<times> int)" where
  "evaluate_example M L X y i = (\<lambda>(st, total_loss, correct).
     case forward_internal M st (X ! i) of
       Inl e \<Rightarrow> Inl e
     | Inr (output, st1) \<Rightarrow>
         if length y \<le> i then Inl OutOfBounds
         else let y_vec = [y ! i] in
           (case loss_forward L output y_vec None of
              Inl e \<Rightarrow> Inl e
            | Inr loss \<Rightarrow>
                (case argmax output of
                   Inl e \<Rightarrow> Inl e
                 | Inr k \<Rightarrow>
                     Inr (st1, total_loss + loss,
                          if k = y ! i then correct + 1 else correct))))"

text \<open>
  \<^verbatim>\<open>Model::evaluate\<close> returns the accuracy; the model also returns the mean loss it
  prints and the store, whose layer caches the forward passes have overwritten.
\<close>

definition evaluate ::
  "Model \<Rightarrow> store \<Rightarrow> Tensor list \<Rightarrow> int list \<Rightarrow> fault + (real \<times> real \<times> store)" where
  "evaluate M st X y =
     (case loss_fn M of
        None \<Rightarrow> Inl AssertionFailed
      | Some L \<Rightarrow>
          (case for_each [0..<length X] (evaluate_example M L X y) (st, 0, 0) of
             Inl e \<Rightarrow> Inl e
           | Inr (st', total_loss, correct) \<Rightarrow>
               Inr (real_of_int correct / real (length X),
                    total_loss / real (length X), st')))"

section \<open>Invariants of the loops\<close>

text \<open>
  After \<open>n\<close> rounds of the row loop of the sparse backward pass, the gradient has the
  shape of the prediction and its first \<open>n\<close> rows hold the prediction minus the one-hot
  row of the label.
\<close>

definition scce_inv :: "Tensor \<Rightarrow> int list \<Rightarrow> nat \<Rightarrow> Tensor \<Rightarrow> bool" where
  "scce_inv p y n g \<longleftrightarrow>
     rows g = rows p \<and> cols g = cols p \<and> length (data g) = rows p * cols p \<and>
     (\<forall>i<n. \<forall>j<cols p. cell g i j = cell p i j - (if int j = y ! i then 1 else 0))"

text \<open>
  The invariant the constructor of a layer establishes and \<^verbatim>\<open>forward\<close> and \<^verbatim>\<open>backward\<close>
  keep: the weight matrix is well formed, and the bias and its gradient have one entry
  per output column.
\<close>

definition wf_layer :: "DenseLayer \<Rightarrow> bool" where
  "wf_layer l \<longleftrightarrow>
     wf_tensor (W l) \<and> length (b_vec l) = cols (W l) \<and> length (grad_b l) = cols (W l)"

text \<open>
  The row-wise softmax in terms of one row: the maximum the first inner loop finds, and
  the sum of exponentials the second one accumulates.
\<close>

definition row_max :: "Tensor \<Rightarrow> nat \<Rightarrow> real" where
  "row_max T i = fold (\<lambda>j max_val. max max_val (cell T i j)) [1..<cols T] (cell T i 0)"

definition row_exp_sum :: "Tensor \<Rightarrow> nat \<Rightarrow> real" where
  "row_exp_sum T i = (\<Sum>j<cols T. exp (cell T i j - row_max T i))"

text \<open>
  What \<^verbatim>\<open>fit\<close> must not touch: the weights and biases of a layer, in the layer's own
  buffers and in the buffers the optimizer sees, and the configuration of its activation.
\<close>

definition same_params :: "DenseLayer \<Rightarrow> DenseLayer \<Rightarrow> bool" where
  "same_params l l' \<longleftrightarrow>
     W l' = W l \<and> b_vec l' = b_vec l \<and>
     param_data (W_param l') = param_data (W_param l) \<and>
     param_data (b_param l') = param_data (b_param l) \<and>
     act_type (activation l') = act_type (activation l) \<and>
     alpha (activation l') = alpha (activation l) \<and>
     beta (activation l') = beta (activation l)"

definition same_store_params :: "store \<Rightarrow> store \<Rightarrow> bool" where
  "same_store_params st st' \<longleftrightarrow> (\<forall>a. same_params (st a) (st' a))"

section \<open>A small layer\<close>

text \<open>
  One input, one output, linear activation, weight 2 and bias 1; the input 3 gives the
  output 7.  \<open>example_layer_fwd\<close> is the layer after that forward pass.
\<close>

definition example_layer :: DenseLayer where
  "example_layer = (DenseLayer_new 1 1 LINEAR)\<lparr>W := \<lparr>rows = 1, cols = 1, data = [2]\<rparr>, b_vec := [1]\<rparr>"

definition example_input :: Tensor where
  "example_input = \<lparr>rows = 1, cols = 1, data = [3]\<rparr>"

definition example_output :: Tensor where
  "example_output = \<lparr>rows = 1, cols = 1, data = [7]\<rparr>"

definition example_layer_fwd :: DenseLayer where
  "example_layer_fwd = example_layer\<lparr>input_cache := example_input,
     activation := (Activation_new LINEAR)\<lparr>act_input_cache := example_output,
                                           output_cache := example_output\<rparr>\<rparr>"

text \<open>
  A model of that one layer, compiled with the sparse categorical cross-entropy loss and
  again with the mean squared error; the store holds the layer at every address;
  \<open>example_grad\<close> is the loss gradient for the label 0 and \<open>example_layer_bwd\<close> the layer
  after the backward pass.
\<close>

definition example_loss :: Loss where
  "example_loss = Loss_new SPARSE_CATEGORICAL_CROSS_ENTROPY 1"

definition example_model :: Model where
  "example_model = compile (add Model_new 0) example_loss 0"

definition example_store :: store where
  "example_store = (\<lambda>a. example_layer)"

definition example_grad :: Tensor where
  "example_grad = \<lparr>rows = 1, cols = 1, data = [6]\<rparr>"

definition example_layer_bwd :: DenseLayer where
  "example_layer_bwd = example_layer_fwd\<lparr>
     grad_W := \<lparr>rows = 1, cols = 1, data = [18]\<rparr>, grad_b := [6],
     W_param := \<lparr>param_data = [0], param_grad = [18]\<rparr>,
     b_param := \<lparr>param_data = [0], param_grad = [6]\<rparr>\<rparr>"

text \<open>
  Two inputs of the softmax pass: one row with a large entry, and a tensor with two rows
  and no columns.
\<close>

definition example_row :: Tensor where
  "example_row = \<lparr>rows = 1, cols = 3, data = [1000, 1, 0]\<rparr>"

definition example_no_columns :: Tensor where
  "example_no_columns = \<lparr>rows = 2, cols = 0, data = []\<rparr>"

definition example_dense_model :: Model where
  "example_dense_model = compile (add Model_new 0) (Loss_new MEAN_SQUARED_ERROR 0) 0"

section \<open>Loops\<close>

lemma for_each_snoc:
  "for_each (xs @ [x]) body s =
     (case for_each xs body s of Inl e \<Rightarrow> Inl e | Inr s' \<Rightarrow> body x s')"
  by (induction xs arbitrary: s) (auto split: sum.splits)

lemma cell_index_less: "i < r \<Longrightarrow> j < c \<Longrightarrow> i * c + j < r * (c::nat)"
proof -
  assume a: "i < r" "j < c"
  then have "i * c + j < Suc i * c" by simp
  also from a have "\<dots> \<le> r * c" by (intro mult_le_mono1) simp
  finally show ?thesis .
qed

lemma row_write_shape:
  "rows (fold (\<lambda>j g. set_cell g i j (f j)) [0..<n] g) = rows g \<and>
   cols (fold (\<lambda>j g. set_cell g i j (f j)) [0..<n] g) = cols g \<and>
   length (data (fold (\<lambda>j g. set_cell g i j (f j)) [0..<n] g)) = length (data g)"
  by (induction n) (simp_all add: set_cell_def)

lemma row_write_nth:
  "k < length (data g) \<Longrightarrow>
   data (fold (\<lambda>j g. set_cell g i j (f j)) [0..<n] g) ! k =
     (if i * cols g \<le> k \<and> k < i * cols g + n then f (k - i * cols g) else data g ! k)"
proof (induction n)
  case 0
  then show ?case by simp
next
  case (Suc n)
  let ?g = "fold (\<lambda>j g. set_cell g i j (f j)) [0..<n] g"
  have sh: "cols ?g = cols g" "length (data ?g) = length (data g)"
    using row_write_shape[of i f n g] by simp_all
  show ?case
  proof (cases "k = i * cols g + n")
    case True
    with Suc.prems sh show ?thesis by (simp add: set_cell_def)
  next
    case False
    with Suc sh show ?thesis by (auto simp add: set_cell_def)
  qed
qed

section \<open>Sparse categorical cross-entropy: the gradient\<close>

lemma sub_label_ok:
  assumes "i < length y" "0 \<le> y ! i" "y ! i < int (cols g)" "i < rows g"
    and "length (data g) = rows g * cols g"
  shows "sub_label g i y =
     Inr (g\<lparr>data := (data g)[i * cols g + nat (y ! i) := data g ! (i * cols g + nat (y ! i)) - 1]\<rparr>)"
proof -
  define K where "K = i * cols g"
  have "nat (y ! i) < cols g" using assms by simp
  then have lt: "K + nat (y ! i) < length (data g)"
    using assms cell_index_less[of i "rows g" "nat (y ! i)" "cols g"] by (simp add: K_def)
  have eq: "nat (int K + y ! i) = K + nat (y ! i)"
    using assms(2) by (simp add: nat_add_distrib)
  have "int K + y ! i < int (length (data g))" "\<not> int K + y ! i < 0"
    using lt assms(2) by linarith+
  then have "sub_label g i y =
     Inr (g\<lparr>data := (data g)[K + nat (y ! i) := data g ! (K + nat (y ! i)) - 1]\<rparr>)"
    using assms(1) eq unfolding sub_label_def label_index_def K_def[symmetric]
    by (simp add: Let_def)
  then show ?thesis by (simp add: K_def)
qed

lemma scce_row_step:
  assumes inv: "scce_inv p y n g" and n: "n < rows p" and ly: "n < length y"
    and lab: "0 \<le> y ! n" "y ! n < int (cols p)"
  shows "\<exists>g'. scce_row p y n g = Inr g' \<and> scce_inv p y (Suc n) g'"
proof -
  let ?c = "cols p"
  let ?h = "fold (\<lambda>j g. set_cell g n j (cell p n j)) [0..<?c] g"
  from inv have g: "rows g = rows p" "cols g = ?c" "length (data g) = rows p * ?c"
    by (simp_all add: scce_inv_def)
  have hs: "rows ?h = rows p" "cols ?h = ?c" "length (data ?h) = rows p * ?c"
    using row_write_shape[of n "cell p n" ?c g] g by simp_all
  let ?k = "n * ?c + nat (y ! n)"
  let ?g' = "?h\<lparr>data := (data ?h)[?k := data ?h ! ?k - 1]\<rparr>"
  have step: "scce_row p y n g = Inr ?g'"
    unfolding scce_row_def using sub_label_ok[of n y ?h] ly lab n hs by simp
  have nth_h: "data ?h ! k = (if n * ?c \<le> k \<and> k < n * ?c + ?c then cell p n (k - n * ?c) else data g ! k)"
    if "k < rows p * ?c" for k
    using row_write_nth[of k g n "cell p n" ?c] that g by simp
  have klt: "?k < rows p * ?c"
    using cell_index_less[of n "rows p" "nat (y ! n)" ?c] n lab by simp
  have cells: "cell ?g' i j = cell p i j - (if int j = y ! i then 1 else 0)"
    if i: "i < Suc n" and j: "j < ?c" for i j
  proof -
    have ij: "i * ?c + j < rows p * ?c"
      using cell_index_less[of i "rows p" j ?c] i n j by simp
    show ?thesis
    proof (cases "i = n")
      case True
      have "cell ?g' n j = (if j = nat (y ! n) then data ?h ! ?k - 1 else data ?h ! (n * ?c + j))"
        using hs ij True klt by (simp add: cell_def nth_list_update)
      moreover have "data ?h ! (n * ?c + j) = cell p n j"
        using nth_h[of "n * ?c + j"] ij True j by simp
      moreover have "nat (y ! n) < ?c" using lab by simp
      then have "data ?h ! ?k = cell p n (nat (y ! n))"
        using nth_h[of ?k] klt by simp
      moreover have "(j = nat (y ! n)) = (int j = y ! n)" using lab by auto
      ultimately show ?thesis using True by auto
    next
      case False
      with i have iln: "i < n" by simp
      then have "Suc i * ?c \<le> n * ?c" by (intro mult_le_mono1) simp
      then have lt: "i * ?c + j < n * ?c" using j by simp
      then have "cell ?g' i j = data ?h ! (i * ?c + j)"
        using hs by (simp add: cell_def)
      also have "\<dots> = data g ! (i * ?c + j)" using nth_h[of "i * ?c + j"] ij lt by simp
      also have "\<dots> = cell g i j" using g by (simp add: cell_def)
      finally show ?thesis using inv iln j by (simp add: scce_inv_def)
    qed
  qed
  have "scce_inv p y (Suc n) ?g'"
    unfolding scce_inv_def using hs cells by simp
  with step show ?thesis by blast
qed

lemma scce_rows_loop:
  assumes "n \<le> rows p" "rows p \<le> length y"
    and "\<forall>i<rows p. 0 \<le> y ! i \<and> y ! i < int (cols p)"
  shows "\<exists>g. for_each [0..<n] (scce_row p y) (Tensor2 (rows p) (cols p)) = Inr g \<and> scce_inv p y n g"
  using assms(1)
proof (induction n)
  case 0
  then show ?case by (simp add: scce_inv_def Tensor2_def)
next
  case (Suc n)
  then obtain g where g: "for_each [0..<n] (scce_row p y) (Tensor2 (rows p) (cols p)) = Inr g"
    "scce_inv p y n g" by auto
  from Suc.prems assms have "n < rows p" "n < length y" "0 \<le> y ! n" "y ! n < int (cols p)"
    by auto
  from scce_row_step[OF g(2) this] g(1) show ?case
    by (auto simp add: for_each_snoc)
qed

text \<open>
  Claim C1.  For a well-formed prediction with \<open>r\<close> rows and one label per row, each a
  valid column index, the sparse categorical cross-entropy backward pass returns a tensor
  of the same shape whose entry \<open>(i, j)\<close> is \<open>(pred(i, j) - one_hot(label i)(j)) / r\<close>.
  (Arithmetic is exact here: the source multiplies by \<^verbatim>\<open>1.0f / rows\<close>, which agrees with
  the division up to rounding.)
\<close>

theorem sparse_backward_formula:
  assumes wf: "wf_tensor pred" and len: "length y = rows pred"
    and lab: "\<forall>i<rows pred. 0 \<le> y ! i \<and> y ! i < int (cols pred)"
  shows "\<exists>G. sparse_categorical_cross_entropy_backward pred y = Inr G \<and>
           rows G = rows pred \<and> cols G = cols pred \<and> wf_tensor G \<and>
           (\<forall>i<rows pred. \<forall>j<cols pred.
              cell G i j = (cell pred i j - (if int j = y ! i then 1 else 0)) / real (rows pred))"
proof -
  obtain g where g: "for_each [0..<rows pred] (scce_row pred y) (Tensor2 (rows pred) (cols pred)) = Inr g"
    and inv: "scce_inv pred y (rows pred) g"
    using scce_rows_loop[of "rows pred" pred y] len lab by auto
  let ?G = "g\<lparr>data := map (\<lambda>v. v * (1 / real (rows pred))) (data g)\<rparr>"
  have res: "sparse_categorical_cross_entropy_backward pred y = Inr ?G"
    by (simp add: sparse_categorical_cross_entropy_backward_def g)
  from inv have sh: "rows g = rows pred" "cols g = cols pred"
    "length (data g) = rows pred * cols pred"
    by (simp_all add: scce_inv_def)
  have cells: "cell ?G i j = (cell pred i j - (if int j = y ! i then 1 else 0)) / real (rows pred)"
    if "i < rows pred" "j < cols pred" for i j
  proof -
    have "i * cols pred + j < length (data g)"
      using cell_index_less[OF that] sh by simp
    then have "cell ?G i j = cell g i j * (1 / real (rows pred))"
      using sh by (simp add: cell_def)
    also have "cell g i j = cell pred i j - (if int j = y ! i then 1 else 0)"
      using inv that by (simp add: scce_inv_def)
    finally show ?thesis by simp
  qed
  have "wf_tensor ?G" using sh by (simp add: wf_tensor_def)
  with res sh cells show ?thesis by auto
qed

theorem sparse_backward_formula_witness:
  "wf_tensor \<lparr>rows = 2, cols = 2, data = [1/2, 1/2, 1/4, 3/4]\<rparr> \<and>
   (\<exists>G. sparse_categorical_cross_entropy_backward
           \<lparr>rows = 2, cols = 2, data = [1/2, 1/2, 1/4, 3/4]\<rparr> [0, 1] = Inr G \<and>
        rows G = 2 \<and> cols G = 2 \<and> wf_tensor G \<and>
        (\<forall>i<2. \<forall>j<2. cell G i j =
           (cell \<lparr>rows = 2, cols = 2, data = [1/2, 1/2, 1/4, 3/4]\<rparr> i j -
            (if int j = [0, 1] ! i then 1 else 0)) / 2))"
proof -
  let ?P = "\<lparr>rows = 2, cols = 2, data = [1/2, 1/2, 1/4, 3/4 :: real]\<rparr>"
  have h1: "wf_tensor ?P" by (simp add: wf_tensor_def)
  have h2: "length [0, 1 :: int] = rows ?P" by simp
  have h3: "\<forall>i<rows ?P. 0 \<le> [0, 1 :: int] ! i \<and> [0, 1 :: int] ! i < int (cols ?P)"
    by (simp add: less_Suc_eq numeral_2_eq_2)
  from sparse_backward_formula[OF h1 h2 h3] h1 show ?thesis by simp
qed

section \<open>Activation: the softmax pass-through\<close>

lemma act_forward_type:
  "act_forward a X = Inr (Y, a') \<Longrightarrow>
     act_type a' = act_type a \<and> alpha a' = alpha a \<and> beta a' = beta a \<and>
     act_input_cache a' = X \<and> output_cache a' = Y"
  by (auto simp add: act_forward_def Let_def split: sum.splits if_splits)

lemma softmax_fwd_example:
  "act_forward (Activation_new SOFTMAX) \<lparr>rows = 1, cols = 2, data = [0, 0]\<rparr> =
     Inr (\<lparr>rows = 1, cols = 2, data = [1/2, 1/2]\<rparr>,
          \<lparr>act_type = SOFTMAX, alpha = 0.01, beta = 1,
           act_input_cache = \<lparr>rows = 1, cols = 2, data = [0, 0]\<rparr>,
           output_cache = \<lparr>rows = 1, cols = 2, data = [1/2, 1/2]\<rparr>\<rparr>)"
  by (simp add: act_forward_def Activation_new_def softmax_def softmax_row_def activate_def
      Tensor2_def Tensor0_def set_cell_def cell_def Let_def upt_rec numeral_2_eq_2)

text \<open>
  Claim C2.  For an activation of kind softmax, after a forward call, \<^verbatim>\<open>backward\<close>
  applied to a gradient of the cached output's shape returns that gradient unchanged.
\<close>

theorem softmax_backward_passthrough:
  assumes "act_type a = SOFTMAX" and "act_forward a X = Inr (Y, a')"
    and "rows dOut = rows (output_cache a')" and "cols dOut = cols (output_cache a')"
  shows "act_backward a' dOut = Inr dOut"
  using assms act_forward_type[OF assms(2)] by (simp add: act_backward_def)

theorem softmax_backward_passthrough_witness:
  "act_type (Activation_new SOFTMAX) = SOFTMAX \<and>
   act_backward \<lparr>act_type = SOFTMAX, alpha = 0.01, beta = 1,
           act_input_cache = \<lparr>rows = 1, cols = 2, data = [0, 0]\<rparr>,
           output_cache = \<lparr>rows = 1, cols = 2, data = [1/2, 1/2]\<rparr>\<rparr>
      \<lparr>rows = 1, cols = 2, data = [3, -7]\<rparr> = Inr \<lparr>rows = 1, cols = 2, data = [3, -7]\<rparr>"
proof -
  have h1: "act_type (Activation_new SOFTMAX) = SOFTMAX" by (simp add: Activation_new_def)
  show ?thesis
    using softmax_backward_passthrough[OF h1 softmax_fwd_example,
        of "\<lparr>rows = 1, cols = 2, data = [3, -7]\<rparr>"] h1
    by simp
qed

section \<open>Loops that write the cells of a tensor\<close>

lemma fold_nested:
  "fold (\<lambda>i. fold (g i) js) is s = fold (\<lambda>p. g (fst p) (snd p)) (List.product is js) s"
proof (induction "is" arbitrary: s)
  case Nil
  then show ?case by simp
next
  case (Cons i "is")
  have "fold (\<lambda>p. g (fst p) (snd p)) (map (Pair i) js) t = fold (g i) js t" for t
    by (simp add: fold_map comp_def)
  with Cons show ?case by simp
qed

lemma point_updates_length:
  "length (fold (\<lambda>p d. d[pos p := h p (d ! pos p)]) ps d) = length d"
  by (induction ps arbitrary: d) simp_all

lemma point_updates_other:
  "k \<notin> pos ` set ps \<Longrightarrow> fold (\<lambda>p d. d[pos p := h p (d ! pos p)]) ps d ! k = d ! k"
  by (induction ps arbitrary: d) auto

lemma point_updates_hit:
  assumes "inj_on pos (set ps)" "distinct ps" "p \<in> set ps" "pos p < length d"
  shows "fold (\<lambda>p d. d[pos p := h p (d ! pos p)]) ps d ! pos p = h p (d ! pos p)"
  using assms
proof (induction ps arbitrary: d)
  case Nil
  then show ?case by simp
next
  case (Cons q qs)
  show ?case
  proof (cases "p = q")
    case True
    with Cons.prems have "pos p \<notin> pos ` set qs" by (auto simp add: inj_on_def)
    then show ?thesis using True Cons.prems(4)
      by (simp add: point_updates_other)
  next
    case False
    with Cons.prems have p: "p \<in> set qs" "pos p \<noteq> pos q" by (auto simp add: inj_on_def)
    from Cons.prems have "inj_on pos (set qs)" "distinct qs" by (simp_all add: inj_on_def)
    from Cons.IH[OF this p(1), of "d[pos q := h q (d ! pos q)]"] Cons.prems(4) p(2)
    show ?thesis by simp
  qed
qed

lemma cell_updates_data:
  "rows (fold (\<lambda>p C. set_cell C (ri p) (ci p) (h p (cell C (ri p) (ci p)))) ps T) = rows T \<and>
   cols (fold (\<lambda>p C. set_cell C (ri p) (ci p) (h p (cell C (ri p) (ci p)))) ps T) = cols T \<and>
   data (fold (\<lambda>p C. set_cell C (ri p) (ci p) (h p (cell C (ri p) (ci p)))) ps T) =
     fold (\<lambda>p d. d[ri p * cols T + ci p := h p (d ! (ri p * cols T + ci p))]) ps (data T)"
  by (induction ps arbitrary: T) (simp_all add: set_cell_def cell_def)

lemma row_major_inj: "inj_on (\<lambda>p. fst p * c + snd p) (set (List.product [0..<r] [0..<(c::nat)]))"
proof (rule inj_onI)
  fix p q
  assume p: "p \<in> set (List.product [0..<r] [0..<c])"
    and q: "q \<in> set (List.product [0..<r] [0..<c])"
    and eq: "fst p * c + snd p = fst q * c + snd q"
  from p q have lt: "snd p < c" "snd q < c" by auto
  from eq have "(fst p * c + snd p) div c = (fst q * c + snd q) div c"
    "(fst p * c + snd p) mod c = (fst q * c + snd q) mod c" by simp_all
  with lt have "fst p = fst q" "snd p = snd q" by simp_all
  then show "p = q" by (simp add: prod_eq_iff)
qed

lemma col_major_inj: "inj_on (\<lambda>p. snd p * r + fst p) (set (List.product [0..<(r::nat)] [0..<c]))"
proof (rule inj_onI)
  fix p q
  assume p: "p \<in> set (List.product [0..<r] [0..<c])"
    and q: "q \<in> set (List.product [0..<r] [0..<c])"
    and eq: "snd p * r + fst p = snd q * r + fst q"
  from p q have lt: "fst p < r" "fst q < r" by auto
  from eq have "(snd p * r + fst p) div r = (snd q * r + fst q) div r"
    "(snd p * r + fst p) mod r = (snd q * r + fst q) mod r" by simp_all
  with lt have "fst p = fst q" "snd p = snd q" by simp_all
  then show "p = q" by (simp add: prod_eq_iff)
qed

lemma cells_loop:
  fixes h :: "nat \<Rightarrow> nat \<Rightarrow> real \<Rightarrow> real"
  assumes wf: "wf_tensor T"
  defines "F \<equiv> fold (\<lambda>i. fold (\<lambda>j C. set_cell C i j (h i j (cell C i j))) [0..<cols T])
                  [0..<rows T] T"
  shows "rows F = rows T" "cols F = cols T" "wf_tensor F"
    and "\<And>i j. i < rows T \<Longrightarrow> j < cols T \<Longrightarrow> cell F i j = h i j (cell T i j)"
proof -
  let ?ps = "List.product [0..<rows T] [0..<cols T]"
  let ?pos = "\<lambda>p. fst p * cols T + snd p"
  let ?hh = "\<lambda>p. h (fst p) (snd p)"
  have F: "F = fold (\<lambda>p C. set_cell C (fst p) (snd p) (?hh p (cell C (fst p) (snd p)))) ?ps T"
    unfolding F_def by (rule fold_nested)
  note cu = cell_updates_data[of fst snd ?hh ?ps T, folded F]
  from cu show r: "rows F = rows T" and c: "cols F = cols T" by simp_all
  from cu have d: "data F = fold (\<lambda>p d. d[?pos p := ?hh p (d ! ?pos p)]) ?ps (data T)"
    by simp
  then have len: "length (data F) = length (data T)"
    using point_updates_length[of ?pos ?hh ?ps "data T"] by simp
  with wf r c show "wf_tensor F" by (simp add: wf_tensor_def)
  fix i j assume ij: "i < rows T" "j < cols T"
  then have mem: "(i, j) \<in> set ?ps" by simp
  have lt: "?pos (i, j) < length (data T)"
    using cell_index_less[OF ij] wf by (simp add: wf_tensor_def)
  have "distinct ?ps" by (simp add: distinct_product)
  from point_updates_hit[OF row_major_inj this mem lt, of ?hh]
  show "cell F i j = h i j (cell T i j)"
    by (simp add: cell_def d c)
qed

lemma Tensor2_shape [simp]:
  "rows (Tensor2 r c) = r" "cols (Tensor2 r c) = c" "wf_tensor (Tensor2 r c)"
  by (simp_all add: Tensor2_def wf_tensor_def)

lemma transpose_t_shape:
  "rows (transpose_t A) = cols A" "cols (transpose_t A) = rows A" "wf_tensor (transpose_t A)"
  and transpose_t_cell:
  "\<And>i j. i < rows A \<Longrightarrow> j < cols A \<Longrightarrow> cell (transpose_t A) j i = cell A i j"
proof -
  let ?T = "Tensor2 (cols A) (rows A)"
  let ?ps = "List.product [0..<rows A] [0..<cols A]"
  let ?pos = "\<lambda>p. snd p * rows A + fst p"
  let ?hh = "\<lambda>p (x::real). cell A (fst p) (snd p)"
  have F: "transpose_t A =
      fold (\<lambda>p C. set_cell C (snd p) (fst p) (?hh p (cell C (snd p) (fst p)))) ?ps ?T"
    unfolding transpose_t_def by (rule fold_nested)
  note cu = cell_updates_data[of snd fst ?hh ?ps ?T, folded F]
  from cu show r: "rows (transpose_t A) = cols A" and c: "cols (transpose_t A) = rows A"
    by simp_all
  from cu have d: "data (transpose_t A) = fold (\<lambda>p d. d[?pos p := ?hh p (d ! ?pos p)]) ?ps (data ?T)"
    by simp
  then have len: "length (data (transpose_t A)) = cols A * rows A"
    using point_updates_length[of ?pos ?hh ?ps "data ?T"] by (simp add: Tensor2_def)
  with r c show "wf_tensor (transpose_t A)" by (simp add: wf_tensor_def)
  fix i j assume ij: "i < rows A" "j < cols A"
  then have mem: "(i, j) \<in> set ?ps" by simp
  have lt: "?pos (i, j) < length (data ?T)"
    using cell_index_less[OF ij(2,1)] by (simp add: Tensor2_def)
  have "distinct ?ps" by (simp add: distinct_product)
  from point_updates_hit[OF col_major_inj this mem lt, of ?hh]
  show "cell (transpose_t A) j i = cell A i j"
    by (simp add: cell_def d c)
qed

lemma fold_add_sum:
  "fold (\<lambda>k (s::real). s + f k) [0..<n] a = a + (\<Sum>k<n. f k)"
  by (induction n) simp_all

lemma matmul_ok:
  assumes "cols A = rows B"
  obtains C where "matmul A B = Inr C" "rows C = rows A" "cols C = cols B" "wf_tensor C"
    "\<And>i j. i < rows A \<Longrightarrow> j < cols B \<Longrightarrow>
        cell C i j = (\<Sum>k<cols A. cell A i k * cell B k j)"
proof -
  let ?T = "Tensor2 (rows A) (cols B)"
  let ?h = "\<lambda>i j (x::real). fold (\<lambda>k sum. sum + cell A i k * cell B k j) [0..<cols A] 0"
  let ?C = "fold (\<lambda>i. fold (\<lambda>j C. set_cell C i j (?h i j (cell C i j))) [0..<cols ?T])
                  [0..<rows ?T] ?T"
  have wfT: "wf_tensor ?T" by simp
  have m: "matmul A B = Inr ?C" using assms by (simp add: matmul_def)
  note cl = cells_loop[where h = ?h and T = ?T, OF wfT]
  show thesis
  proof (rule that[OF m])
    show "rows ?C = rows A" "cols ?C = cols B" "wf_tensor ?C"
      using cl(1,2,3) by simp_all
    fix i j assume "i < rows A" "j < cols B"
    then show "cell ?C i j = (\<Sum>k<cols A. cell A i k * cell B k j)"
      using cl(4)[of i j] by (simp add: fold_add_sum)
  qed
qed

lemma matmul_assert: "cols A \<noteq> rows B \<Longrightarrow> matmul A B = Inl AssertionFailed"
  by (simp add: matmul_def)

lemma for_each_invariant:
  assumes "for_each xs body s = Inr s'" and "P s"
    and "\<And>x t t'. P t \<Longrightarrow> body x t = Inr t' \<Longrightarrow> P t'"
  shows "P s'"
  using assms(1,2)
proof (induction xs arbitrary: s)
  case Nil
  then show ?case by simp
next
  case (Cons x xs)
  then show ?case using assms(3) by (auto split: sum.splits)
qed

lemma add_bias_shape:
  "add_bias A b = Inr A' \<Longrightarrow>
     rows A' = rows A \<and> cols A' = cols A \<and> length (data A') = length (data A)"
proof -
  assume a: "add_bias A b = Inr A'"
  let ?P = "\<lambda>T. rows T = rows A \<and> cols T = cols A \<and> length (data T) = length (data A)"
  have inner: "?P (fold (\<lambda>j A. set_cell A i j (cell A i j + b ! j)) js T)" if "?P T" for i js T
    using that by (induction js arbitrary: T) (simp_all add: set_cell_def)
  have "?P (fold (\<lambda>i. fold (\<lambda>j A. set_cell A i j (cell A i j + b ! j)) [0..<cols A]) is T)"
    if "?P T" for "is" T
    using that
  proof (induction "is" arbitrary: T)
    case Nil
    then show ?case by simp
  next
    case (Cons i "is")
    from inner[OF Cons.prems, of i "[0..<cols A]"] Cons.IH show ?case by simp
  qed
  from this[of A "[0..<rows A]"] a show ?thesis
    by (auto simp add: add_bias_def split: if_splits)
qed

lemma softmax_exp_loop_shape:
  "rows (fst (fold (\<lambda>j (X, sum).
             let X' = set_cell X i j (exp (cell X i j - mv)) in (X', sum + cell X' i j))
           js (X, s))) = rows X \<and>
   cols (fst (fold (\<lambda>j (X, sum).
             let X' = set_cell X i j (exp (cell X i j - mv)) in (X', sum + cell X' i j))
           js (X, s))) = cols X \<and>
   length (data (fst (fold (\<lambda>j (X, sum).
             let X' = set_cell X i j (exp (cell X i j - mv)) in (X', sum + cell X' i j))
           js (X, s)))) = length (data X)"
  by (induction js arbitrary: X s) (simp_all add: set_cell_def Let_def)

lemma softmax_div_loop_shape:
  "rows (fold (\<lambda>j X. set_cell X i j (cell X i j / s)) js X) = rows X \<and>
   cols (fold (\<lambda>j X. set_cell X i j (cell X i j / s)) js X) = cols X \<and>
   length (data (fold (\<lambda>j X. set_cell X i j (cell X i j / s)) js X)) = length (data X)"
  by (induction js arbitrary: X) (simp_all add: set_cell_def)

lemma softmax_row_shape:
  "softmax_row i X = Inr X' \<Longrightarrow>
     rows X' = rows X \<and> cols X' = cols X \<and> length (data X') = length (data X)"
  using softmax_exp_loop_shape[of i _ "[0..<cols X]" X 0]
  by (auto simp add: softmax_row_def Let_def split_def softmax_div_loop_shape split: if_splits)

lemma softmax_shape:
  assumes "softmax X = Inr X'"
  shows "rows X' = rows X \<and> cols X' = cols X \<and> length (data X') = length (data X)"
  using assms unfolding softmax_def
  by (rule for_each_invariant) (auto dest: softmax_row_shape)

lemma act_forward_result:
  assumes "act_forward a X = Inr (Y, a')"
  shows "act_type a' = act_type a" "alpha a' = alpha a" "beta a' = beta a"
    "act_input_cache a' = X" "output_cache a' = Y"
    "rows Y = rows X" "cols Y = cols X" "wf_tensor Y"
proof -
  let ?T = "Tensor2 (rows X) (cols X)"
  let ?h = "\<lambda>i j (x::real). activate a (cell X i j)"
  let ?Y0 = "fold (\<lambda>i. fold (\<lambda>j C. set_cell C i j (?h i j (cell C i j))) [0..<cols ?T])
                  [0..<rows ?T] ?T"
  have wfT: "wf_tensor ?T" by simp
  note cl = cells_loop[where h = ?h and T = ?T, OF wfT]
  from cl have sh0: "rows ?Y0 = rows X" "cols ?Y0 = cols X" "wf_tensor ?Y0" by simp_all
  from assms have Y: "(if act_type a = SOFTMAX then softmax ?Y0 else Inr ?Y0) = Inr Y"
    and a': "a' = a\<lparr>act_input_cache := X, output_cache := Y\<rparr>"
    by (auto simp add: act_forward_def Let_def split: sum.splits)
  from a' show "act_type a' = act_type a" "alpha a' = alpha a" "beta a' = beta a"
    "act_input_cache a' = X" "output_cache a' = Y" by simp_all
  have "rows Y = rows ?Y0 \<and> cols Y = cols ?Y0 \<and> length (data Y) = length (data ?Y0)"
  proof (cases "act_type a = SOFTMAX")
    case True
    with Y have "softmax ?Y0 = Inr Y" by simp
    from softmax_shape[OF this] show ?thesis .
  next
    case False
    with Y show ?thesis by simp
  qed
  with sh0 show "rows Y = rows X" "cols Y = cols X" "wf_tensor Y"
    by (simp_all add: wf_tensor_def)
qed

lemma act_backward_ok:
  assumes "rows dOut = rows (output_cache a)" "cols dOut = cols (output_cache a)"
  obtains dAct where "act_backward a dOut = Inr dAct"
    "rows dAct = rows dOut" "cols dAct = cols dOut"
    "act_type a = SOFTMAX \<Longrightarrow> dAct = dOut"
    "\<And>i j. act_type a \<noteq> SOFTMAX \<Longrightarrow> i < rows dOut \<Longrightarrow> j < cols dOut \<Longrightarrow>
       cell dAct i j =
         cell dOut i j * derivative a (cell (act_input_cache a) i j) (cell (output_cache a) i j)"
proof (cases "act_type a = SOFTMAX")
  case True
  with assms have "act_backward a dOut = Inr dOut" by (simp add: act_backward_def)
  from that[OF this] True show thesis by simp
next
  case False
  let ?T = "Tensor2 (rows dOut) (cols dOut)"
  let ?h = "\<lambda>i j (x::real). cell dOut i j *
       derivative a (cell (act_input_cache a) i j) (cell (output_cache a) i j)"
  let ?D = "fold (\<lambda>i. fold (\<lambda>j C. set_cell C i j (?h i j (cell C i j))) [0..<cols ?T])
                  [0..<rows ?T] ?T"
  have wfT: "wf_tensor ?T" by simp
  note cl = cells_loop[where h = ?h and T = ?T, OF wfT]
  have b: "act_backward a dOut = Inr ?D" using assms False by (simp add: act_backward_def)
  show thesis
  proof (rule that[OF b])
    show "rows ?D = rows dOut" "cols ?D = cols dOut" using cl(1,2) by simp_all
    show "?D = dOut" if "act_type a = SOFTMAX" using that False by simp
    fix i j assume "i < rows dOut" "j < cols dOut"
    then show "cell ?D i j = ?h i j 0" using cl(4)[of i j] by simp
  qed
qed

lemma bias_row_loop:
  "length (fold (\<lambda>j gb. gb[j := gb ! j + f j]) [0..<c] gb) = length gb \<and>
   (\<forall>j<length gb. fold (\<lambda>j gb. gb[j := gb ! j + f j]) [0..<c] gb ! j =
        (if j < c then gb ! j + f j else gb ! j))"
proof (induction c)
  case 0
  then show ?case by simp
next
  case (Suc c)
  let ?g = "fold (\<lambda>j gb. gb[j := gb ! j + f j]) [0..<c] gb"
  from Suc have len: "length ?g = length gb"
    and nth: "\<And>j. j < length gb \<Longrightarrow> ?g ! j = (if j < c then gb ! j + f j else gb ! j)"
    by simp_all
  have "?g[c := ?g ! c + f c] ! j = (if j < Suc c then gb ! j + f j else gb ! j)"
    if j: "j < length gb" for j
  proof (cases "j = c")
    case True
    with j len nth[of c] show ?thesis by simp
  next
    case False
    with j nth[of j] show ?thesis by (simp add: nth_list_update)
  qed
  with len show ?case by simp
qed

lemma bias_grad_sum:
  "length (bias_grad gb dAct) = length gb \<and>
   (\<forall>j<length gb. j < cols dAct \<longrightarrow> bias_grad gb dAct ! j = (\<Sum>i<rows dAct. cell dAct i j))"
proof -
  let ?step = "\<lambda>i. fold (\<lambda>j gb. gb[j := gb ! j + cell dAct i j]) [0..<cols dAct]"
  have "length (fold ?step [0..<n] (replicate (length gb) 0)) = length gb \<and>
     (\<forall>j<length gb. j < cols dAct \<longrightarrow>
        fold ?step [0..<n] (replicate (length gb) 0) ! j = (\<Sum>i<n. cell dAct i j))" for n
  proof (induction n)
    case 0
    then show ?case by simp
  next
    case (Suc n)
    let ?g = "fold ?step [0..<n] (replicate (length gb) 0)"
    from bias_row_loop[of "cell dAct n" "cols dAct" ?g] Suc show ?case by simp
  qed
  then show ?thesis by (simp add: bias_grad_def)
qed

section \<open>DenseLayer: the backward pass\<close>

lemma dense_forward_result:
  assumes "dense_forward l X = Inr (Y, l1)"
  shows "W l1 = W l" "b_vec l1 = b_vec l" "grad_W l1 = grad_W l" "grad_b l1 = grad_b l"
    "W_param l1 = W_param l" "b_param l1 = b_param l" "input_cache l1 = X"
    "output_cache (activation l1) = Y" "act_type (activation l1) = act_type (activation l)"
    "rows Y = rows X" "cols Y = cols (W l)" "cols X = rows (W l)"
    "alpha (activation l1) = alpha (activation l)" "beta (activation l1) = beta (activation l)"
proof -
  from assms have c: "cols X = rows (W l)"
    by (simp add: dense_forward_def split: if_splits)
  then obtain out where out: "matmul X (W l) = Inr out" "rows out = rows X" "cols out = cols (W l)"
    by (rule matmul_ok)
  from assms c out obtain out' act' where
    ab: "add_bias out (b_vec l) = Inr out'" and
    af: "act_forward (activation l) out' = Inr (Y, act')" and
    l1: "l1 = l\<lparr>input_cache := X, activation := act'\<rparr>"
    by (auto simp add: dense_forward_def split: sum.splits)
  from add_bias_shape[OF ab] out have sh: "rows out' = rows X" "cols out' = cols (W l)"
    by simp_all
  note r = act_forward_result[OF af]
  from l1 show "W l1 = W l" "b_vec l1 = b_vec l" "grad_W l1 = grad_W l" "grad_b l1 = grad_b l"
    "W_param l1 = W_param l" "b_param l1 = b_param l" "input_cache l1 = X"
    by simp_all
  from l1 r show "output_cache (activation l1) = Y"
    "act_type (activation l1) = act_type (activation l)" by simp_all
  from r sh show "rows Y = rows X" "cols Y = cols (W l)" by simp_all
  from c show "cols X = rows (W l)" .
  from l1 r show "alpha (activation l1) = alpha (activation l)"
    "beta (activation l1) = beta (activation l)" by simp_all
qed

lemma dense_backward_core:
  assumes gb: "length (grad_b l1) = cols (W l1)"
    and cache: "rows (output_cache (activation l1)) = rows (input_cache l1)"
      "cols (output_cache (activation l1)) = cols (W l1)"
    and shape: "cols dOut = cols (W l1)" "rows dOut = rows (input_cache l1)"
  obtains dAct gW dX l2 where
    "act_backward (activation l1) dOut = Inr dAct"
    "matmul (transpose_t (input_cache l1)) dAct = Inr gW"
    "matmul dAct (transpose_t (W l1)) = Inr dX"
    "dense_backward l1 dOut = Inr (dX, l2)"
    "l2 = l1\<lparr>grad_W := gW, grad_b := bias_grad (grad_b l1) dAct,
              W_param := (W_param l1)\<lparr>param_grad := data gW\<rparr>,
              b_param := (b_param l1)\<lparr>param_grad := bias_grad (grad_b l1) dAct\<rparr>\<rparr>"
    "rows dAct = rows dOut" "cols dAct = cols dOut"
    "\<And>i j. i < cols (input_cache l1) \<Longrightarrow> j < cols (W l1) \<Longrightarrow>
        cell gW i j = (\<Sum>r<rows (input_cache l1). cell (input_cache l1) r i * cell dAct r j)"
    "\<And>i k. i < rows (input_cache l1) \<Longrightarrow> k < rows (W l1) \<Longrightarrow>
        cell dX i k = (\<Sum>j<cols (W l1). cell dAct i j * cell (W l1) k j)"
proof -
  let ?X = "input_cache l1"
  from shape cache have "rows dOut = rows (output_cache (activation l1))"
    "cols dOut = cols (output_cache (activation l1))" by simp_all
  then obtain dAct where dAct: "act_backward (activation l1) dOut = Inr dAct"
    "rows dAct = rows dOut" "cols dAct = cols dOut"
    by (rule act_backward_ok)
  have "cols (transpose_t ?X) = rows dAct"
    using dAct shape by (simp add: transpose_t_shape)
  then obtain gW where gW: "matmul (transpose_t ?X) dAct = Inr gW"
    and gWs: "rows gW = rows (transpose_t ?X)" "cols gW = cols dAct" "wf_tensor gW"
    and gWc: "\<And>i j. i < rows (transpose_t ?X) \<Longrightarrow> j < cols dAct \<Longrightarrow>
        cell gW i j = (\<Sum>k<cols (transpose_t ?X). cell (transpose_t ?X) i k * cell dAct k j)"
    by (rule matmul_ok) blast
  have "cols dAct = rows (transpose_t (W l1))"
    using dAct shape by (simp add: transpose_t_shape)
  then obtain dX where dX: "matmul dAct (transpose_t (W l1)) = Inr dX"
    and dXs: "rows dX = rows dAct" "cols dX = cols (transpose_t (W l1))" "wf_tensor dX"
    and dXc: "\<And>i j. i < rows dAct \<Longrightarrow> j < cols (transpose_t (W l1)) \<Longrightarrow>
        cell dX i j = (\<Sum>k<cols dAct. cell dAct i k * cell (transpose_t (W l1)) k j)"
    by (rule matmul_ok) blast
  let ?l2 = "l1\<lparr>grad_W := gW, grad_b := bias_grad (grad_b l1) dAct,
              W_param := (W_param l1)\<lparr>param_grad := data gW\<rparr>,
              b_param := (b_param l1)\<lparr>param_grad := bias_grad (grad_b l1) dAct\<rparr>\<rparr>"
  have bw: "dense_backward l1 dOut = Inr (dX, ?l2)"
    using shape dAct(1) gW dX
    by (simp add: dense_backward_def sync_gradients_def Let_def)
  show thesis
  proof (rule that[OF dAct(1) gW dX bw refl dAct(2,3)])
    fix i j assume ij: "i < cols ?X" "j < cols (W l1)"
    then have "cell gW i j = (\<Sum>k<rows ?X. cell (transpose_t ?X) i k * cell dAct k j)"
      using gWc[of i j] dAct shape by (simp add: transpose_t_shape)
    also have "\<dots> = (\<Sum>k<rows ?X. cell ?X k i * cell dAct k j)"
      using ij by (intro sum.cong) (simp_all add: transpose_t_cell)
    finally show "cell gW i j = (\<Sum>r<rows ?X. cell ?X r i * cell dAct r j)" .
  next
    fix i k assume ik: "i < rows ?X" "k < rows (W l1)"
    then have "cell dX i k = (\<Sum>j<cols (W l1). cell dAct i j * cell (transpose_t (W l1)) j k)"
      using dXc[of i k] dAct shape by (simp add: transpose_t_shape)
    also have "\<dots> = (\<Sum>j<cols (W l1). cell dAct i j * cell (W l1) k j)"
      using ik by (intro sum.cong) (simp_all add: transpose_t_cell)
    finally show "cell dX i k = (\<Sum>j<cols (W l1). cell dAct i j * cell (W l1) k j)" .
  qed
qed

text \<open>The invariant of a layer holds after construction and is kept by both passes.\<close>

lemma wf_layer_new: "wf_layer (DenseLayer_new input_dim output_dim act)"
  by (simp add: wf_layer_def DenseLayer_new_def)

lemma wf_layer_forward:
  "wf_layer l \<Longrightarrow> dense_forward l X = Inr (Y, l') \<Longrightarrow> wf_layer l'"
  using dense_forward_result[of l X Y l'] by (simp add: wf_layer_def)

lemma wf_layer_backward:
  assumes "wf_layer l" "dense_backward l dOut = Inr (dX, l')"
  shows "wf_layer l'"
proof -
  from assms(2) obtain dAct gW where
    "l' = sync_gradients (l\<lparr>grad_W := gW, grad_b := bias_grad (grad_b l) dAct\<rparr>)"
    by (auto simp add: dense_backward_def Let_def split: if_splits sum.splits)
  with assms(1) bias_grad_sum[of "grad_b l" dAct] show ?thesis
    by (simp add: wf_layer_def sync_gradients_def)
qed

lemma bias_grad_length_only: "length gb0 = length gb \<Longrightarrow> bias_grad gb0 dAct = bias_grad gb dAct"
  by (simp add: bias_grad_def)

lemma example_forward:
  "dense_forward example_layer example_input = Inr (example_output, example_layer_fwd)"
  by (simp add: example_layer_def example_input_def example_output_def example_layer_fwd_def
      dense_forward_def matmul_def add_bias_def act_forward_def activate_def Tensor2_def
      set_cell_def cell_def DenseLayer_new_def Activation_new_def Tensor0_def Let_def)

lemma example_backward_value:
  "\<exists>l2. dense_backward example_layer_fwd \<lparr>rows = 1, cols = 1, data = [1]\<rparr> =
      Inr (\<lparr>rows = 1, cols = 1, data = [2]\<rparr>, l2) \<and>
     grad_W l2 = \<lparr>rows = 1, cols = 1, data = [3]\<rparr> \<and> grad_b l2 = [1]"
  by (simp add: example_layer_def example_input_def example_output_def example_layer_fwd_def
      dense_backward_def act_backward_def derivative_def transpose_t_def bias_grad_def
      sync_gradients_def matmul_def Tensor2_def Let_def
      set_cell_def cell_def DenseLayer_new_def Activation_new_def Tensor0_def)

text \<open>
  Claim C3.  After a forward call with input \<open>X\<close>, \<^verbatim>\<open>backward\<close> applied to a gradient
  with as many columns as the weight matrix and as many rows as \<open>X\<close> passes both
  assertions; with \<open>dAct\<close> the result of the activation's backward pass, it stores
  \<open>transpose X \<cdot> dAct\<close> as weight gradient and the column sums of \<open>dAct\<close> as bias gradient,
  and returns \<open>dAct \<cdot> transpose W\<close>.  The stored gradients do not depend on what the
  gradient buffers held before the call.
\<close>

theorem dense_backward_gradients:
  assumes inv: "wf_layer l" and wfX: "wf_tensor X" and fwd: "dense_forward l X = Inr (Y, l1)"
    and shape: "cols dOut = cols (W l)" "rows dOut = rows X"
  shows "\<exists>dAct gW dX l2.
     act_backward (activation l1) dOut = Inr dAct \<and>
     matmul (transpose_t X) dAct = Inr gW \<and>
     matmul dAct (transpose_t (W l)) = Inr dX \<and>
     dense_backward l1 dOut = Inr (dX, l2) \<and>
     grad_W l2 = gW \<and>
     (\<forall>i<cols X. \<forall>j<cols (W l).
        cell (grad_W l2) i j = (\<Sum>r<rows X. cell X r i * cell dAct r j)) \<and>
     length (grad_b l2) = cols (W l) \<and>
     (\<forall>j<cols (W l). grad_b l2 ! j = (\<Sum>i<rows X. cell dAct i j)) \<and>
     (\<forall>i<rows X. \<forall>k<rows (W l).
        cell dX i k = (\<Sum>j<cols (W l). cell dAct i j * cell (W l) k j)) \<and>
     (\<forall>gW0 gb0. length gb0 = cols (W l) \<longrightarrow>
        (\<exists>l2'. dense_backward (l1\<lparr>grad_W := gW0, grad_b := gb0\<rparr>) dOut = Inr (dX, l2') \<and>
               grad_W l2' = grad_W l2 \<and> grad_b l2' = grad_b l2))"
proof -
  note f = dense_forward_result[OF fwd]
  from inv f have gb: "length (grad_b l1) = cols (W l1)" by (simp add: wf_layer_def)
  from f have cache: "rows (output_cache (activation l1)) = rows (input_cache l1)"
    "cols (output_cache (activation l1)) = cols (W l1)" by simp_all
  from shape f have sh: "cols dOut = cols (W l1)" "rows dOut = rows (input_cache l1)"
    by simp_all
  from dense_backward_core[OF gb cache sh] obtain dAct gW dX l2 where
    r: "act_backward (activation l1) dOut = Inr dAct"
      "matmul (transpose_t (input_cache l1)) dAct = Inr gW"
      "matmul dAct (transpose_t (W l1)) = Inr dX"
      "dense_backward l1 dOut = Inr (dX, l2)"
      "l2 = l1\<lparr>grad_W := gW, grad_b := bias_grad (grad_b l1) dAct,
              W_param := (W_param l1)\<lparr>param_grad := data gW\<rparr>,
              b_param := (b_param l1)\<lparr>param_grad := bias_grad (grad_b l1) dAct\<rparr>\<rparr>"
      "rows dAct = rows dOut" "cols dAct = cols dOut"
    and gWc: "\<And>i j. i < cols (input_cache l1) \<Longrightarrow> j < cols (W l1) \<Longrightarrow>
        cell gW i j = (\<Sum>r<rows (input_cache l1). cell (input_cache l1) r i * cell dAct r j)"
    and dXc: "\<And>i k. i < rows (input_cache l1) \<Longrightarrow> k < rows (W l1) \<Longrightarrow>
        cell dX i k = (\<Sum>j<cols (W l1). cell dAct i j * cell (W l1) k j)"
    by blast
  have gW2: "grad_W l2 = gW" and gb2: "grad_b l2 = bias_grad (grad_b l1) dAct"
    using r(5) by simp_all
  note bs = bias_grad_sum[of "grad_b l1" dAct]
  have c1: "\<forall>i<cols X. \<forall>j<cols (W l).
        cell (grad_W l2) i j = (\<Sum>r<rows X. cell X r i * cell dAct r j)"
    using gWc gW2 f by simp
  have c2: "length (grad_b l2) = cols (W l)" using bs gb2 gb f by simp
  have c3: "\<forall>j<cols (W l). grad_b l2 ! j = (\<Sum>i<rows X. cell dAct i j)"
    using bs gb2 gb f r(6,7) shape by simp
  have c4: "\<forall>i<rows X. \<forall>k<rows (W l).
        cell dX i k = (\<Sum>j<cols (W l). cell dAct i j * cell (W l) k j)"
    using dXc f by simp
  have c5: "\<exists>l2'. dense_backward (l1\<lparr>grad_W := gW0, grad_b := gb0\<rparr>) dOut = Inr (dX, l2') \<and>
               grad_W l2' = grad_W l2 \<and> grad_b l2' = grad_b l2"
    if len: "length gb0 = cols (W l)" for gW0 gb0
  proof -
    from len gb f have "bias_grad gb0 dAct = bias_grad (grad_b l1) dAct"
      by (intro bias_grad_length_only) simp
    then show ?thesis
      using r(1,2,3) sh gW2 gb2
      by (simp add: dense_backward_def sync_gradients_def Let_def)
  qed
  from r(1-4) f gW2 c1 c2 c3 c4 c5 show ?thesis by (intro exI[of _ dAct] exI[of _ gW] exI[of _ dX] exI[of _ l2]) simp
qed

theorem dense_backward_gradients_witness:
  "wf_layer example_layer \<and> wf_tensor example_input \<and>
   dense_forward example_layer example_input = Inr (example_output, example_layer_fwd) \<and>
   (\<exists>dAct gW dX l2.
     act_backward (activation example_layer_fwd) \<lparr>rows = 1, cols = 1, data = [1]\<rparr> = Inr dAct \<and>
     matmul (transpose_t example_input) dAct = Inr gW \<and>
     matmul dAct (transpose_t (W example_layer)) = Inr dX \<and>
     dense_backward example_layer_fwd \<lparr>rows = 1, cols = 1, data = [1]\<rparr> = Inr (dX, l2) \<and>
     grad_W l2 = gW \<and> length (grad_b l2) = 1 \<and>
     grad_b l2 ! 0 = cell dAct 0 0 \<and>
     cell (grad_W l2) 0 0 = cell example_input 0 0 * cell dAct 0 0 \<and>
     cell dX 0 0 = cell dAct 0 0 * cell (W example_layer) 0 0)"
proof -
  have h1: "wf_layer example_layer"
    by (simp add: wf_layer_def example_layer_def DenseLayer_new_def wf_tensor_def)
  have h2: "wf_tensor example_input" by (simp add: wf_tensor_def example_input_def)
  have h4: "cols \<lparr>rows = 1, cols = 1, data = [1::real]\<rparr> = cols (W example_layer)"
    by (simp add: example_layer_def)
  have h5: "rows \<lparr>rows = 1, cols = 1, data = [1::real]\<rparr> = rows example_input"
    by (simp add: example_input_def)
  have dims: "cols (W example_layer) = 1" "rows (W example_layer) = 1"
    "cols example_input = 1" "rows example_input = 1"
    by (simp_all add: example_layer_def example_input_def)
  from dense_backward_gradients[OF h1 h2 example_forward h4 h5]
  obtain dAct gW dX l2 where
    "act_backward (activation example_layer_fwd) \<lparr>rows = 1, cols = 1, data = [1]\<rparr> = Inr dAct"
    "matmul (transpose_t example_input) dAct = Inr gW"
    "matmul dAct (transpose_t (W example_layer)) = Inr dX"
    "dense_backward example_layer_fwd \<lparr>rows = 1, cols = 1, data = [1]\<rparr> = Inr (dX, l2)"
    "grad_W l2 = gW" "length (grad_b l2) = 1"
    "grad_b l2 ! 0 = cell dAct 0 0"
    "cell (grad_W l2) 0 0 = cell example_input 0 0 * cell dAct 0 0"
    "cell dX 0 0 = cell dAct 0 0 * cell (W example_layer) 0 0"
    unfolding dims by auto
  with h1 h2 example_forward show ?thesis by blast
qed

section \<open>Optimizers: the update rules\<close>

lemma index_loop_plain:
  "length (fold (\<lambda>i d. d[i := f i (d ! i)]) [0..<n] d) = length d \<and>
   (\<forall>k<length d. fold (\<lambda>i d. d[i := f i (d ! i)]) [0..<n] d ! k =
        (if k < n then f k (d ! k) else d ! k))"
proof (induction n)
  case 0
  then show ?case by simp
next
  case (Suc n)
  let ?g = "fold (\<lambda>i d. d[i := f i (d ! i)]) [0..<n] d"
  from Suc have len: "length ?g = length d"
    and nth: "\<And>k. k < length d \<Longrightarrow> ?g ! k = (if k < n then f k (d ! k) else d ! k)"
    by simp_all
  have "?g[n := f n (?g ! n)] ! k = (if k < Suc n then f k (d ! k) else d ! k)"
    if k: "k < length d" for k
  proof (cases "k = n")
    case True
    with k len nth[of n] show ?thesis by simp
  next
    case False
    with k nth[of k] show ?thesis by (simp add: nth_list_update)
  qed
  with len show ?case by simp
qed

lemma index_loop_full:
  "fold (\<lambda>i d. d[i := f i (d ! i)]) [0..<length d] d = map (\<lambda>i. f i (d ! i)) [0..<length d]"
  using index_loop_plain[of f "length d" d] by (intro nth_equalityI) simp_all

lemma sgd_momentum_loop:
  fixes mu lr :: real and g :: "real list"
  assumes "length v1 = length d"
  defines "body \<equiv> (\<lambda>i (v, d). let v' = v[i := mu * v ! i - lr * g ! i]
                               in (v', d[i := d ! i + v' ! i]))"
  shows "length (fst (fold body [0..<n] (v1, d))) = length d \<and>
         length (snd (fold body [0..<n] (v1, d))) = length d \<and>
         (\<forall>k<length d.
            fst (fold body [0..<n] (v1, d)) ! k =
              (if k < n then mu * v1 ! k - lr * g ! k else v1 ! k) \<and>
            snd (fold body [0..<n] (v1, d)) ! k =
              (if k < n then d ! k + (mu * v1 ! k - lr * g ! k) else d ! k))"
proof (induction n)
  case 0
  then show ?case using assms(1) by simp
next
  case (Suc n)
  obtain v d' where vd: "fold body [0..<n] (v1, d) = (v, d')" by (cases "fold body [0..<n] (v1, d)")
  with Suc have len: "length v = length d" "length d' = length d"
    and nth: "\<And>k. k < length d \<Longrightarrow> v ! k = (if k < n then mu * v1 ! k - lr * g ! k else v1 ! k)"
      "\<And>k. k < length d \<Longrightarrow> d' ! k = (if k < n then d ! k + (mu * v1 ! k - lr * g ! k) else d ! k)"
    by simp_all
  let ?v' = "v[n := mu * v ! n - lr * g ! n]"
  have "fold body [0..<Suc n] (v1, d) = body n (fold body [0..<n] (v1, d))" by simp
  also have "\<dots> = body n (v, d')" by (simp only: vd)
  also have "\<dots> = (?v', d'[n := d' ! n + ?v' ! n])" by (simp add: body_def Let_def)
  finally have step: "fold body [0..<Suc n] (v1, d) = (?v', d'[n := d' ! n + ?v' ! n])" .
  have "?v' ! k = (if k < Suc n then mu * v1 ! k - lr * g ! k else v1 ! k) \<and>
        d'[n := d' ! n + ?v' ! n] ! k =
          (if k < Suc n then d ! k + (mu * v1 ! k - lr * g ! k) else d ! k)"
    if k: "k < length d" for k
  proof (cases "k = n")
    case True
    with k len nth(1)[of n] nth(2)[of n] show ?thesis by simp
  next
    case False
    with k nth(1)[of k] nth(2)[of k] show ?thesis by (simp add: nth_list_update)
  qed
  with len show ?case unfolding step by simp
qed

lemma sgd_momentum_loop_full:
  fixes mu lr :: real
  assumes "length v1 = length d"
  shows "fold (\<lambda>i (v, d). let v' = v[i := mu * v ! i - lr * g ! i]
                               in (v', d[i := d ! i + v' ! i])) [0..<length d] (v1, d) =
     (map (\<lambda>i. mu * v1 ! i - lr * g ! i) [0..<length d],
      map (\<lambda>i. d ! i + (mu * v1 ! i - lr * g ! i)) [0..<length d])"
proof -
  note l = sgd_momentum_loop[OF assms, of mu lr g "length d"]
  show ?thesis
  proof (rule prod_eqI)
    show "fst (fold (\<lambda>i (v, d). let v' = v[i := mu * v ! i - lr * g ! i]
                               in (v', d[i := d ! i + v' ! i])) [0..<length d] (v1, d)) =
       fst (map (\<lambda>i. mu * v1 ! i - lr * g ! i) [0..<length d],
      map (\<lambda>i. d ! i + (mu * v1 ! i - lr * g ! i)) [0..<length d])"
      using l by (intro nth_equalityI) simp_all
    show "snd (fold (\<lambda>i (v, d). let v' = v[i := mu * v ! i - lr * g ! i]
                               in (v', d[i := d ! i + v' ! i])) [0..<length d] (v1, d)) =
       snd (map (\<lambda>i. mu * v1 ! i - lr * g ! i) [0..<length d],
      map (\<lambda>i. d ! i + (mu * v1 ! i - lr * g ! i)) [0..<length d])"
      using l by (intro nth_equalityI) simp_all
  qed
qed

lemma lazy_vector:
  assumes "case tab a of None \<Rightarrow> True | Some v0 \<Rightarrow> length v0 = n"
  shows "(if lookup_vec tab a = [] then resize n (lookup_vec tab a) else lookup_vec tab a) =
           (case tab a of None \<Rightarrow> replicate n 0 | Some v0 \<Rightarrow> v0)"
  using assms by (auto simp add: lookup_vec_def resize_def split: option.splits)

text \<open>A step with momentum leaves a velocity of the length of the data.\<close>

lemma velocity_after_step:
  assumes "0 < momentum opt"
    and "case velocity opt a of None \<Rightarrow> True | Some v0 \<Rightarrow> length v0 = length (param_data p)"
  shows "case velocity (fst (sgd_step opt a p)) a of None \<Rightarrow> False
         | Some v \<Rightarrow> length v = length (param_data (snd (sgd_step opt a p)))"
proof -
  let ?n = "length (param_data p)"
  let ?v = "case velocity opt a of None \<Rightarrow> replicate ?n 0 | Some v0 \<Rightarrow> v0"
  have lv: "length ?v = ?n" using assms(2) by (simp split: option.splits)
  have v1: "(if lookup_vec (velocity opt) a = [] then resize ?n (lookup_vec (velocity opt) a)
             else lookup_vec (velocity opt) a) = ?v"
    using assms(2) by (rule lazy_vector)
  show ?thesis
    unfolding sgd_step_def Let_def v1
    using assms(1) sgd_momentum_loop_full[OF lv, of "momentum opt" "sgd_lr opt" "param_grad p"]
    by (simp add: Let_def)
qed

text \<open>
  Claim C6.  For a parameter whose gradient has the length of its data: with momentum
  factor zero, \<^verbatim>\<open>step\<close> replaces every \<open>data[i]\<close> by \<open>data[i] - lr * grad[i]\<close> and leaves
  the optimizer as it is; with a positive momentum factor, the velocity of this parameter
  (zeros if the parameter has none yet) becomes \<open>momentum * v[i] - lr * grad[i]\<close>, every
  \<open>data[i]\<close> grows by the new \<open>v[i]\<close>, and the velocities of the other parameters stay.
  One step with learning rate 0.1 on data 1.0 with gradient 2.0 gives 0.8.
\<close>

theorem sgd_step_rule:
  assumes len: "length (param_grad p) = length (param_data p)"
    and vel: "case velocity opt a of None \<Rightarrow> True
              | Some v0 \<Rightarrow> length v0 = length (param_data p)"
  shows "(momentum opt = 0 \<longrightarrow>
            sgd_step opt a p =
              (opt, p\<lparr>param_data :=
                      map (\<lambda>i. param_data p ! i - sgd_lr opt * param_grad p ! i)
                        [0..<length (param_data p)]\<rparr>)) \<and>
         (0 < momentum opt \<longrightarrow>
            (let n = length (param_data p);
                 v = (case velocity opt a of None \<Rightarrow> replicate n 0 | Some v0 \<Rightarrow> v0);
                 v' = map (\<lambda>i. momentum opt * v ! i - sgd_lr opt * param_grad p ! i) [0..<n]
             in sgd_step opt a p =
                  (opt\<lparr>velocity := (velocity opt)(a \<mapsto> v')\<rparr>,
                   p\<lparr>param_data := map (\<lambda>i. param_data p ! i + v' ! i) [0..<n]\<rparr>))) \<and>
         sgd_step (SGD_new (1/10)) a \<lparr>param_data = [1], param_grad = [2]\<rparr> =
           (SGD_new (1/10), \<lparr>param_data = [4/5], param_grad = [2]\<rparr>)"
proof (intro conjI impI)
  assume "momentum opt = 0"
  then show "sgd_step opt a p =
              (opt, p\<lparr>param_data :=
                      map (\<lambda>i. param_data p ! i - sgd_lr opt * param_grad p ! i)
                        [0..<length (param_data p)]\<rparr>)"
    using index_loop_full[of "\<lambda>i x. x - sgd_lr opt * param_grad p ! i" "param_data p"]
    by (simp add: sgd_step_def)
next
  assume mu: "0 < momentum opt"
  let ?n = "length (param_data p)"
  let ?v = "case velocity opt a of None \<Rightarrow> replicate ?n 0 | Some v0 \<Rightarrow> v0"
  let ?v' = "map (\<lambda>i. momentum opt * ?v ! i - sgd_lr opt * param_grad p ! i) [0..<?n]"
  have v1: "(if lookup_vec (velocity opt) a = [] then resize ?n (lookup_vec (velocity opt) a)
             else lookup_vec (velocity opt) a) = ?v"
    using vel by (rule lazy_vector)
  have lv: "length ?v = ?n" using vel by (simp split: option.splits)
  have d: "map (\<lambda>i. param_data p ! i + (momentum opt * ?v ! i - sgd_lr opt * param_grad p ! i))
             [0..<?n] = map (\<lambda>i. param_data p ! i + ?v' ! i) [0..<?n]"
    by (rule map_cong) simp_all
  have "sgd_step opt a p =
     (opt\<lparr>velocity := (velocity opt)(a \<mapsto> ?v')\<rparr>,
      p\<lparr>param_data := map (\<lambda>i. param_data p ! i + ?v' ! i) [0..<?n]\<rparr>)"
    unfolding sgd_step_def Let_def v1
    using mu sgd_momentum_loop_full[OF lv, of "momentum opt" "sgd_lr opt" "param_grad p"] d
    by (simp add: Let_def)
  then show "let n = length (param_data p);
                 v = (case velocity opt a of None \<Rightarrow> replicate n 0 | Some v0 \<Rightarrow> v0);
                 v' = map (\<lambda>i. momentum opt * v ! i - sgd_lr opt * param_grad p ! i) [0..<n]
             in sgd_step opt a p =
                  (opt\<lparr>velocity := (velocity opt)(a \<mapsto> v')\<rparr>,
                   p\<lparr>param_data := map (\<lambda>i. param_data p ! i + v' ! i) [0..<n]\<rparr>)"
    by (simp add: Let_def)
next
  show "sgd_step (SGD_new (1/10)) a \<lparr>param_data = [1], param_grad = [2]\<rparr> =
           (SGD_new (1/10), \<lparr>param_data = [4/5], param_grad = [2]\<rparr>)"
    by (simp add: sgd_step_def SGD_new_def)
qed

theorem sgd_step_rule_witness:
  "sgd_step (SGD_new_momentum (1/10) (9/10)) 7 \<lparr>param_data = [1], param_grad = [2]\<rparr> =
     (\<lparr>sgd_lr = 1/10, momentum = 9/10, velocity = [7 \<mapsto> [-1/5]]\<rparr>,
      \<lparr>param_data = [4/5], param_grad = [2]\<rparr>) \<and>
   sgd_step \<lparr>sgd_lr = 1/10, momentum = 9/10, velocity = [7 \<mapsto> [-1/5]]\<rparr> 7
       \<lparr>param_data = [4/5], param_grad = [2]\<rparr> =
     (\<lparr>sgd_lr = 1/10, momentum = 9/10, velocity = [7 \<mapsto> [-19/50]]\<rparr>,
      \<lparr>param_data = [21/50], param_grad = [2]\<rparr>) \<and>
   sgd_step (SGD_new (1/10)) 7 \<lparr>param_data = [1, 3], param_grad = [2, -1]\<rparr> =
     (SGD_new (1/10), \<lparr>param_data = [4/5, 31/10], param_grad = [2, -1]\<rparr>)"
proof -
  let ?p = "\<lparr>param_data = [1::real], param_grad = [2::real]\<rparr>"
  let ?o1 = "SGD_new_momentum (1/10) (9/10)"
  have a1: "length (param_grad ?p) = length (param_data ?p)" by simp
  have a2: "case velocity ?o1 7 of None \<Rightarrow> True | Some v0 \<Rightarrow> length v0 = length (param_data ?p)"
    by (simp add: SGD_new_momentum_def)
  have m1: "0 < momentum ?o1" by (simp add: SGD_new_momentum_def)
  have v1: "velocity ?o1 7 = None" by (simp add: SGD_new_momentum_def)
  have s1: "sgd_step ?o1 7 ?p =
     (\<lparr>sgd_lr = 1/10, momentum = 9/10, velocity = [7 \<mapsto> [-1/5]]\<rparr>,
      \<lparr>param_data = [4/5], param_grad = [2]\<rparr>)"
    using sgd_step_rule[OF a1 a2, THEN conjunct2, THEN conjunct1, rule_format, OF m1]
    unfolding Let_def v1 by (simp add: SGD_new_momentum_def)
  let ?p2 = "\<lparr>param_data = [4/5::real], param_grad = [2::real]\<rparr>"
  let ?o2 = "\<lparr>sgd_lr = 1/10, momentum = 9/10, velocity = [7 \<mapsto> [-1/5::real]]\<rparr>"
  have b1: "length (param_grad ?p2) = length (param_data ?p2)" by simp
  have b2: "case velocity ?o2 7 of None \<Rightarrow> True | Some v0 \<Rightarrow> length v0 = length (param_data ?p2)"
    by simp
  have m2: "0 < momentum ?o2" by simp
  have v2: "velocity ?o2 7 = Some [-1/5]" by simp
  have s2: "sgd_step ?o2 7 ?p2 =
     (\<lparr>sgd_lr = 1/10, momentum = 9/10, velocity = [7 \<mapsto> [-19/50]]\<rparr>,
      \<lparr>param_data = [21/50], param_grad = [2]\<rparr>)"
    using sgd_step_rule[OF b1 b2, THEN conjunct2, THEN conjunct1, rule_format, OF m2]
    unfolding Let_def v2 by simp
  let ?p3 = "\<lparr>param_data = [1, 3::real], param_grad = [2, -1::real]\<rparr>"
  have c1: "length (param_grad ?p3) = length (param_data ?p3)" by simp
  have c2: "case velocity (SGD_new (1/10)) 7 of None \<Rightarrow> True
            | Some v0 \<Rightarrow> length v0 = length (param_data ?p3)"
    by (simp add: SGD_new_def)
  have m3: "momentum (SGD_new (1/10)) = 0" by (simp add: SGD_new_def)
  have s3: "sgd_step (SGD_new (1/10)) 7 ?p3 =
     (SGD_new (1/10), \<lparr>param_data = [4/5, 31/10], param_grad = [2, -1]\<rparr>)"
    using sgd_step_rule[OF c1 c2, THEN conjunct1, rule_format, OF m3]
    by (simp add: SGD_new_def upt_rec numeral_2_eq_2)
  from s1 s2 s3 show ?thesis by (simp only: simp_thms)
qed

lemma adam_loop:
  fixes opt :: AdamOptimizer and g :: "real list" and t :: int
  assumes lm: "length m1 = length d" and lv: "length v1 = length d"
  defines "M \<equiv> \<lambda>k. beta1 opt * m1 ! k + (1 - beta1 opt) * g ! k"
    and "V \<equiv> \<lambda>k. beta2 opt * v1 ! k + (1 - beta2 opt) * g ! k * g ! k"
  defines "D \<equiv> \<lambda>k. d ! k - adam_lr opt * (M k / (1 - power_int (beta1 opt) t)) /
                      (sqrt (V k / (1 - power_int (beta2 opt) t)) + adam_eps opt)"
  shows "\<exists>m v d'. fold (adam_cell opt t g) [0..<n] (m1, v1, d) = (m, v, d') \<and>
           length m = length d \<and> length v = length d \<and> length d' = length d \<and>
           (\<forall>k<length d. m ! k = (if k < n then M k else m1 ! k) \<and>
                          v ! k = (if k < n then V k else v1 ! k) \<and>
                          d' ! k = (if k < n then D k else d ! k))"
proof (induction n)
  case 0
  then show ?case using lm lv by simp
next
  case (Suc n)
  then obtain m v d' where f: "fold (adam_cell opt t g) [0..<n] (m1, v1, d) = (m, v, d')"
    and len: "length m = length d" "length v = length d" "length d' = length d"
    and nth: "\<And>k. k < length d \<Longrightarrow> m ! k = (if k < n then M k else m1 ! k)"
      "\<And>k. k < length d \<Longrightarrow> v ! k = (if k < n then V k else v1 ! k)"
      "\<And>k. k < length d \<Longrightarrow> d' ! k = (if k < n then D k else d ! k)"
    by blast
  let ?m = "m[n := beta1 opt * m ! n + (1 - beta1 opt) * g ! n]"
  let ?v = "v[n := beta2 opt * v ! n + (1 - beta2 opt) * g ! n * g ! n]"
  let ?d = "d'[n := d' ! n - adam_lr opt * (?m ! n / (1 - power_int (beta1 opt) t)) /
                      (sqrt (?v ! n / (1 - power_int (beta2 opt) t)) + adam_eps opt)]"
  have "fold (adam_cell opt t g) [0..<Suc n] (m1, v1, d) =
          adam_cell opt t g n (fold (adam_cell opt t g) [0..<n] (m1, v1, d))" by simp
  also have "\<dots> = adam_cell opt t g n (m, v, d')" by (simp only: f)
  also have "\<dots> = (?m, ?v, ?d)" by (simp add: adam_cell_def Let_def)
  finally have step: "fold (adam_cell opt t g) [0..<Suc n] (m1, v1, d) = (?m, ?v, ?d)" .
  have "?m ! k = (if k < Suc n then M k else m1 ! k) \<and>
        ?v ! k = (if k < Suc n then V k else v1 ! k) \<and>
        ?d ! k = (if k < Suc n then D k else d ! k)" if k: "k < length d" for k
  proof (cases "k = n")
    case True
    with k len nth(1)[of n] nth(2)[of n] nth(3)[of n] show ?thesis
      by (simp add: M_def V_def D_def)
  next
    case False
    with k nth(1)[of k] nth(2)[of k] nth(3)[of k] show ?thesis
      by (simp add: nth_list_update)
  qed
  with len step show ?case by simp
qed

lemma adam_loop_full:
  assumes lm: "length m1 = length d" and lv: "length v1 = length d"
  shows "fold (adam_cell opt t g) [0..<length d] (m1, v1, d) =
     (map (\<lambda>k. beta1 opt * m1 ! k + (1 - beta1 opt) * g ! k) [0..<length d],
      map (\<lambda>k. beta2 opt * v1 ! k + (1 - beta2 opt) * g ! k * g ! k) [0..<length d],
      map (\<lambda>k. d ! k - adam_lr opt *
                  ((beta1 opt * m1 ! k + (1 - beta1 opt) * g ! k) /
                     (1 - power_int (beta1 opt) t)) /
                  (sqrt ((beta2 opt * v1 ! k + (1 - beta2 opt) * g ! k * g ! k) /
                     (1 - power_int (beta2 opt) t)) + adam_eps opt)) [0..<length d])"
proof -
  from adam_loop[OF lm lv, of opt t g "length d"] obtain m v d' where
    f: "fold (adam_cell opt t g) [0..<length d] (m1, v1, d) = (m, v, d')"
    and len: "length m = length d" "length v = length d" "length d' = length d"
    and nth: "\<forall>k<length d.
        m ! k = beta1 opt * m1 ! k + (1 - beta1 opt) * g ! k \<and>
        v ! k = beta2 opt * v1 ! k + (1 - beta2 opt) * g ! k * g ! k \<and>
        d' ! k = d ! k - adam_lr opt *
                  ((beta1 opt * m1 ! k + (1 - beta1 opt) * g ! k) /
                     (1 - power_int (beta1 opt) t)) /
                  (sqrt ((beta2 opt * v1 ! k + (1 - beta2 opt) * g ! k * g ! k) /
                     (1 - power_int (beta2 opt) t)) + adam_eps opt)"
    by auto
  have "m = map (\<lambda>k. beta1 opt * m1 ! k + (1 - beta1 opt) * g ! k) [0..<length d]"
    using len nth by (intro nth_equalityI) simp_all
  moreover have "v = map (\<lambda>k. beta2 opt * v1 ! k + (1 - beta2 opt) * g ! k * g ! k) [0..<length d]"
    using len nth by (intro nth_equalityI) simp_all
  moreover have "d' = map (\<lambda>k. d ! k - adam_lr opt *
                  ((beta1 opt * m1 ! k + (1 - beta1 opt) * g ! k) /
                     (1 - power_int (beta1 opt) t)) /
                  (sqrt ((beta2 opt * v1 ! k + (1 - beta2 opt) * g ! k * g ! k) /
                     (1 - power_int (beta2 opt) t)) + adam_eps opt)) [0..<length d]"
    using len nth by (intro nth_equalityI) simp_all
  ultimately show ?thesis using f by simp
qed

lemma adam_step_timestep:
  assumes "timestep opt < 2147483647"
  shows "\<exists>opt' p'. adam_step opt a p = Inr (opt', p') \<and> timestep opt' = timestep opt + 1"
  using assms by (simp add: adam_step_def Let_def split_def)

lemma adam_step_overflow:
  "timestep opt = 2147483647 \<Longrightarrow> adam_step opt a p = Inl IntegerOverflow"
  by (simp add: adam_step_def)

lemma lazy_moments:
  assumes "(m_tab opt a = None \<and> v_tab opt a = None) \<or>
           (\<exists>m0 v0. m_tab opt a = Some m0 \<and> v_tab opt a = Some v0 \<and>
                    length m0 = n \<and> length v0 = n)"
  shows "(if lookup_vec (m_tab opt) a = []
          then (resize n (lookup_vec (m_tab opt) a), resize n (lookup_vec (v_tab opt) a))
          else (lookup_vec (m_tab opt) a, lookup_vec (v_tab opt) a)) =
         (case m_tab opt a of None \<Rightarrow> replicate n 0 | Some x \<Rightarrow> x,
          case v_tab opt a of None \<Rightarrow> replicate n 0 | Some x \<Rightarrow> x)"
  using assms by (auto simp add: lookup_vec_def resize_def)

text \<open>
  Claim C7.  The step counter is a field of the optimizer, not of the parameter.  Every
  call of \<^verbatim>\<open>step\<close> raises it by one, whatever parameter is passed, and the update of
  that call uses the raised value \<open>t\<close> in both bias corrections:
  \<open>m_hat = m / (1 - beta1 ^ t)\<close>, \<open>v_hat = v / (1 - beta2 ^ t)\<close>,
  \<open>data -= lr * m_hat / (sqrt v_hat + eps)\<close>.  The counter is a 32-bit \<^verbatim>\<open>int\<close> in the
  source: one step needs a counter below 2147483647, two steps in a row a counter below
  2147483646.
\<close>

theorem adam_step_shared_counter:
  assumes bound: "timestep opt < 2147483647"
    and len: "length (param_grad p) = length (param_data p)"
    and st: "(m_tab opt a = None \<and> v_tab opt a = None) \<or>
             (\<exists>m0 v0. m_tab opt a = Some m0 \<and> v_tab opt a = Some v0 \<and>
                      length m0 = length (param_data p) \<and> length v0 = length (param_data p))"
  shows "(let t = timestep opt + 1;
              n = length (param_data p);
              g = param_grad p;
              m0 = (case m_tab opt a of None \<Rightarrow> replicate n 0 | Some x \<Rightarrow> x);
              v0 = (case v_tab opt a of None \<Rightarrow> replicate n 0 | Some x \<Rightarrow> x);
              m' = map (\<lambda>i. beta1 opt * m0 ! i + (1 - beta1 opt) * g ! i) [0..<n];
              v' = map (\<lambda>i. beta2 opt * v0 ! i + (1 - beta2 opt) * g ! i * g ! i) [0..<n];
              m_hat = (\<lambda>i. m' ! i / (1 - power_int (beta1 opt) t));
              v_hat = (\<lambda>i. v' ! i / (1 - power_int (beta2 opt) t))
          in adam_step opt a p =
               Inr (opt\<lparr>timestep := t, m_tab := (m_tab opt)(a \<mapsto> m'),
                        v_tab := (v_tab opt)(a \<mapsto> v')\<rparr>,
                    p\<lparr>param_data :=
                        map (\<lambda>i. param_data p ! i -
                                   adam_lr opt * m_hat i / (sqrt (v_hat i) + adam_eps opt))
                          [0..<n]\<rparr>)) \<and>
         (\<forall>b q. \<exists>opt1 q1. adam_step opt b q = Inr (opt1, q1) \<and>
                          timestep opt1 = timestep opt + 1) \<and>
         (timestep opt < 2147483646 \<longrightarrow>
            (\<forall>b q c r. \<exists>opt1 q1 opt2 r2.
                adam_step opt b q = Inr (opt1, q1) \<and> adam_step opt1 c r = Inr (opt2, r2) \<and>
                timestep opt1 = timestep opt + 1 \<and> timestep opt2 = timestep opt + 2))"
proof (intro conjI allI impI)
  let ?n = "length (param_data p)"
  let ?t = "timestep opt + 1"
  let ?g = "param_grad p"
  let ?m0 = "case m_tab opt a of None \<Rightarrow> replicate ?n 0 | Some x \<Rightarrow> x"
  let ?v0 = "case v_tab opt a of None \<Rightarrow> replicate ?n 0 | Some x \<Rightarrow> x"
  let ?m' = "map (\<lambda>i. beta1 opt * ?m0 ! i + (1 - beta1 opt) * ?g ! i) [0..<?n]"
  let ?v' = "map (\<lambda>i. beta2 opt * ?v0 ! i + (1 - beta2 opt) * ?g ! i * ?g ! i) [0..<?n]"
  let ?d' = "map (\<lambda>i. param_data p ! i -
               adam_lr opt * (?m' ! i / (1 - power_int (beta1 opt) ?t)) /
                 (sqrt (?v' ! i / (1 - power_int (beta2 opt) ?t)) + adam_eps opt)) [0..<?n]"
  have lm: "length ?m0 = ?n" and lv: "length ?v0 = ?n" using st by auto
  have d: "map (\<lambda>k. param_data p ! k - adam_lr opt *
                  ((beta1 opt * ?m0 ! k + (1 - beta1 opt) * ?g ! k) /
                     (1 - power_int (beta1 opt) ?t)) /
                  (sqrt ((beta2 opt * ?v0 ! k + (1 - beta2 opt) * ?g ! k * ?g ! k) /
                     (1 - power_int (beta2 opt) ?t)) + adam_eps opt)) [0..<?n] = ?d'"
    by (rule map_cong) simp_all
  have loop: "fold (adam_cell opt ?t ?g) [0..<?n] (?m0, ?v0, param_data p) = (?m', ?v', ?d')"
    using adam_loop_full[OF lm lv, of opt ?t ?g] d by simp
  from bound have nb: "\<not> 2147483647 \<le> timestep opt" by simp
  have "adam_step opt a p =
     Inr (opt\<lparr>timestep := ?t, m_tab := (m_tab opt)(a \<mapsto> ?m'),
              v_tab := (v_tab opt)(a \<mapsto> ?v')\<rparr>,
          p\<lparr>param_data := ?d'\<rparr>)"
    unfolding adam_step_def Let_def lazy_moments[OF st]
    by (simp only: loop prod.case nb if_False)
  then show "let t = timestep opt + 1;
              n = length (param_data p);
              g = param_grad p;
              m0 = (case m_tab opt a of None \<Rightarrow> replicate n 0 | Some x \<Rightarrow> x);
              v0 = (case v_tab opt a of None \<Rightarrow> replicate n 0 | Some x \<Rightarrow> x);
              m' = map (\<lambda>i. beta1 opt * m0 ! i + (1 - beta1 opt) * g ! i) [0..<n];
              v' = map (\<lambda>i. beta2 opt * v0 ! i + (1 - beta2 opt) * g ! i * g ! i) [0..<n];
              m_hat = (\<lambda>i. m' ! i / (1 - power_int (beta1 opt) t));
              v_hat = (\<lambda>i. v' ! i / (1 - power_int (beta2 opt) t))
          in adam_step opt a p =
               Inr (opt\<lparr>timestep := t, m_tab := (m_tab opt)(a \<mapsto> m'),
                        v_tab := (v_tab opt)(a \<mapsto> v')\<rparr>,
                    p\<lparr>param_data :=
                        map (\<lambda>i. param_data p ! i -
                                   adam_lr opt * m_hat i / (sqrt (v_hat i) + adam_eps opt))
                          [0..<n]\<rparr>)"
    unfolding Let_def by simp
next
  fix b q
  show "\<exists>opt1 q1. adam_step opt b q = Inr (opt1, q1) \<and> timestep opt1 = timestep opt + 1"
    using bound by (rule adam_step_timestep)
next
  fix b q c r
  assume two: "timestep opt < 2147483646"
  from adam_step_timestep[OF bound, of b q] obtain opt1 q1 where
    s1: "adam_step opt b q = Inr (opt1, q1)" "timestep opt1 = timestep opt + 1"
    by blast
  from two s1(2) have "timestep opt1 < 2147483647" by simp
  from adam_step_timestep[OF this, of c r] obtain opt2 r2 where
    s2: "adam_step opt1 c r = Inr (opt2, r2)" "timestep opt2 = timestep opt1 + 1"
    by blast
  from s1 s2 show "\<exists>opt1 q1 opt2 r2.
      adam_step opt b q = Inr (opt1, q1) \<and> adam_step opt1 c r = Inr (opt2, r2) \<and>
      timestep opt1 = timestep opt + 1 \<and> timestep opt2 = timestep opt + 2"
    by auto
qed

theorem adam_step_shared_counter_witness:
  "adam_step \<lparr>adam_lr = 9/8, beta1 = 1/2, beta2 = 0, adam_eps = 1, timestep = 1,
              m_tab = [1 \<mapsto> [0, 0]], v_tab = [1 \<mapsto> [0, 0]]\<rparr>
     2 \<lparr>param_data = [1], param_grad = [2]\<rparr> =
   Inr (\<lparr>adam_lr = 9/8, beta1 = 1/2, beta2 = 0, adam_eps = 1, timestep = 2,
         m_tab = [1 \<mapsto> [0, 0], 2 \<mapsto> [1]], v_tab = [1 \<mapsto> [0, 0], 2 \<mapsto> [4]]\<rparr>,
        \<lparr>param_data = [1/2], param_grad = [2]\<rparr>) \<and>
   (\<exists>opt1 q1 opt2 r2.
      adam_step \<lparr>adam_lr = 9/8, beta1 = 1/2, beta2 = 0, adam_eps = 1, timestep = 1,
                 m_tab = [1 \<mapsto> [0, 0]], v_tab = [1 \<mapsto> [0, 0]]\<rparr>
        2 \<lparr>param_data = [1], param_grad = [2]\<rparr> = Inr (opt1, q1) \<and>
      adam_step opt1 1 \<lparr>param_data = [5, 6], param_grad = [0, 0]\<rparr> = Inr (opt2, r2) \<and>
      timestep opt1 = 2 \<and> timestep opt2 = 3)"
proof -
  let ?opt = "\<lparr>adam_lr = 9/8, beta1 = 1/2, beta2 = 0, adam_eps = 1, timestep = 1,
              m_tab = [1 \<mapsto> [0, 0::real]], v_tab = [1 \<mapsto> [0, 0::real]]\<rparr>"
  let ?p = "\<lparr>param_data = [1::real], param_grad = [2::real]\<rparr>"
  have h1: "timestep ?opt < 2147483647" by simp
  have h2: "length (param_grad ?p) = length (param_data ?p)" by simp
  have h3: "(m_tab ?opt 2 = None \<and> v_tab ?opt 2 = None) \<or>
             (\<exists>m0 v0. m_tab ?opt 2 = Some m0 \<and> v_tab ?opt 2 = Some v0 \<and>
                      length m0 = length (param_data ?p) \<and> length v0 = length (param_data ?p))"
    by simp
  have h4: "timestep ?opt < 2147483646" by simp
  have tabs: "m_tab ?opt 2 = None" "v_tab ?opt 2 = None" by simp_all
  have one: "adam_step ?opt 2 ?p =
      Inr (\<lparr>adam_lr = 9/8, beta1 = 1/2, beta2 = 0, adam_eps = 1, timestep = 2,
            m_tab = [1 \<mapsto> [0, 0], 2 \<mapsto> [1]], v_tab = [1 \<mapsto> [0, 0], 2 \<mapsto> [4]]\<rparr>,
           \<lparr>param_data = [1/2], param_grad = [2]\<rparr>)"
    using adam_step_shared_counter[OF h1 h2 h3, THEN conjunct1]
    unfolding Let_def tabs by (simp add: power2_eq_square)
  have two: "\<exists>opt1 q1 opt2 r2.
      adam_step ?opt 2 ?p = Inr (opt1, q1) \<and>
      adam_step opt1 1 \<lparr>param_data = [5, 6], param_grad = [0, 0]\<rparr> = Inr (opt2, r2) \<and>
      timestep opt1 = timestep ?opt + 1 \<and> timestep opt2 = timestep ?opt + 2"
    using adam_step_shared_counter[OF h1 h2 h3, THEN conjunct2, THEN conjunct2, rule_format,
        OF h4, of 2 ?p 1 "\<lparr>param_data = [5, 6], param_grad = [0, 0]\<rparr>"] .
  from one two show ?thesis by simp
qed

section \<open>argmax on a tensor with several rows\<close>

lemma argmax_one_row_example:
  "argmax \<lparr>rows = 1, cols = 3, data = [1, 7, 7]\<rparr> = Inr 1"
  by (simp add: argmax_def argmax_scan_def cell_def upt_rec numeral_3_eq_3)

text \<open>
  Claim C4 says that \<^verbatim>\<open>argmax\<close> of a tensor with more than one row looks at row 0
  only.  The loop visits every row: the two tensors below have the same row 0, and the
  larger entry in row 1 of the first changes the result from column 1 to column 0.
\<close>

theorem argmax_reads_every_row:
  "argmax \<lparr>rows = 2, cols = 2, data = [1, 2, 5, 0]\<rparr> = Inr 0 \<and>
   argmax \<lparr>rows = 2, cols = 2, data = [1, 2, 0, 0]\<rparr> = Inr 1"
  by (simp add: argmax_def argmax_scan_def cell_def upt_rec numeral_2_eq_2)

section \<open>Activation: the softmax forward pass\<close>

lemma row_update_nth:
  "rows (fold (\<lambda>j T. set_cell T i j (h j (cell T i j))) [0..<n] T) = rows T \<and>
   cols (fold (\<lambda>j T. set_cell T i j (h j (cell T i j))) [0..<n] T) = cols T \<and>
   length (data (fold (\<lambda>j T. set_cell T i j (h j (cell T i j))) [0..<n] T)) = length (data T) \<and>
   (\<forall>k<length (data T).
      data (fold (\<lambda>j T. set_cell T i j (h j (cell T i j))) [0..<n] T) ! k =
        (if i * cols T \<le> k \<and> k < i * cols T + n then h (k - i * cols T) (data T ! k)
         else data T ! k))"
proof (induction n)
  case 0
  then show ?case by simp
next
  case (Suc n)
  let ?G = "fold (\<lambda>j T. set_cell T i j (h j (cell T i j))) [0..<n] T"
  let ?p = "i * cols T + n"
  from Suc have sh: "rows ?G = rows T" "cols ?G = cols T" "length (data ?G) = length (data T)"
    and nth: "\<And>k. k < length (data T) \<Longrightarrow> data ?G ! k =
        (if i * cols T \<le> k \<and> k < ?p then h (k - i * cols T) (data T ! k) else data T ! k)"
    by simp_all
  have step: "fold (\<lambda>j T. set_cell T i j (h j (cell T i j))) [0..<Suc n] T =
      ?G\<lparr>data := (data ?G)[?p := h n (data ?G ! ?p)]\<rparr>"
    using sh by (simp add: set_cell_def cell_def)
  have "(data ?G)[?p := h n (data ?G ! ?p)] ! k =
        (if i * cols T \<le> k \<and> k < i * cols T + Suc n then h (k - i * cols T) (data T ! k)
         else data T ! k)" if k: "k < length (data T)" for k
  proof (cases "k = ?p")
    case True
    with k sh nth[of ?p] show ?thesis by simp
  next
    case False
    with k nth[of k] show ?thesis by (auto simp add: nth_list_update)
  qed
  with sh show ?case unfolding step by simp
qed

lemma exp_loop:
  assumes "i * cols T + n \<le> length (data T)"
  shows "fold (\<lambda>j (X, sum). let X' = set_cell X i j (exp (cell X i j - mv))
                            in (X', sum + cell X' i j)) [0..<n] (T, s0) =
         (fold (\<lambda>j T. set_cell T i j (exp (cell T i j - mv))) [0..<n] T,
          s0 + (\<Sum>j<n. exp (cell T i j - mv)))"
  using assms
proof (induction n)
  case 0
  then show ?case by simp
next
  case (Suc n)
  let ?body = "\<lambda>j (X, sum). let X' = set_cell X i j (exp (cell X i j - mv))
                            in (X', sum + cell X' i j)"
  let ?G = "\<lambda>n. fold (\<lambda>j T. set_cell T i j (exp (cell T i j - mv))) [0..<n] T"
  from Suc have IH: "fold ?body [0..<n] (T, s0) = (?G n, s0 + (\<Sum>j<n. exp (cell T i j - mv)))"
    by simp
  have "fold ?body [0..<Suc n] (T, s0) = ?body n (fold ?body [0..<n] (T, s0))" by simp
  also have "\<dots> = ?body n (?G n, s0 + (\<Sum>j<n. exp (cell T i j - mv)))" by (simp only: IH)
  also have "\<dots> = (?G (Suc n), s0 + (\<Sum>j<n. exp (cell T i j - mv)) + cell (?G (Suc n)) i n)"
    by (simp add: Let_def)
  finally have step: "fold ?body [0..<Suc n] (T, s0) =
      (?G (Suc n), s0 + (\<Sum>j<n. exp (cell T i j - mv)) + cell (?G (Suc n)) i n)" .
  note r = row_update_nth[of i "\<lambda>j x. exp (x - mv)" "Suc n" T]
  from Suc.prems have lt: "i * cols T + n < length (data T)" by simp
  have "cell (?G (Suc n)) i n = exp (cell T i n - mv)"
    using r lt by (simp add: cell_def)
  with step show ?case by simp
qed

lemma fold_max_Max:
  fixes f :: "nat \<Rightarrow> real"
  shows "fold (\<lambda>j m. max m (f j)) [1..<Suc n] (f 0) = Max (f ` {..<Suc n})"
proof (induction n)
  case 0
  then show ?case by (simp add: lessThan_Suc)
next
  case (Suc n)
  have "fold (\<lambda>j m. max m (f j)) [1..<Suc (Suc n)] (f 0) =
        max (fold (\<lambda>j m. max m (f j)) [1..<Suc n] (f 0)) (f (Suc n))" by simp
  also have "\<dots> = max (Max (f ` {..<Suc n})) (f (Suc n))" by (simp only: Suc)
  also have "\<dots> = Max (insert (f (Suc n)) (f ` {..<Suc n}))"
    by (subst Max_insert) (auto simp add: max.commute)
  also have "insert (f (Suc n)) (f ` {..<Suc n}) = f ` {..<Suc (Suc n)}"
    by (simp add: lessThan_Suc)
  finally show ?case .
qed

lemma row_max_Max: "0 < cols T \<Longrightarrow> row_max T i = Max (cell T i ` {..<cols T})"
  using fold_max_Max[of "cell T i" "cols T - 1"] by (simp add: row_max_def)

lemma row_max_cong:
  assumes "cols T = cols X" "\<And>j. j < cols X \<Longrightarrow> cell T i j = cell X i j" "0 < cols X"
  shows "row_max T i = row_max X i"
  unfolding row_max_def using assms by (intro fold_cong) auto

lemma row_exp_sum_cong:
  assumes "cols T = cols X" "\<And>j. j < cols X \<Longrightarrow> cell T i j = cell X i j" "0 < cols X"
  shows "row_exp_sum T i = row_exp_sum X i"
  unfolding row_exp_sum_def using assms row_max_cong[OF assms] by (intro sum.cong) auto

lemma softmax_row_nth:
  assumes c: "0 < cols T" and len: "i * cols T + cols T \<le> length (data T)"
  obtains T2 where "softmax_row i T = Inr T2"
    "rows T2 = rows T" "cols T2 = cols T" "length (data T2) = length (data T)"
    "\<And>k. k < length (data T) \<Longrightarrow> data T2 ! k =
        (if i * cols T \<le> k \<and> k < i * cols T + cols T
         then exp (data T ! k - row_max T i) / row_exp_sum T i else data T ! k)"
proof -
  let ?mv = "row_max T i"
  let ?T1 = "fold (\<lambda>j T. set_cell T i j (exp (cell T i j - ?mv))) [0..<cols T] T"
  let ?s = "row_exp_sum T i"
  let ?T2 = "fold (\<lambda>j X. set_cell X i j (cell X i j / ?s)) [0..<cols T] ?T1"
  note r1 = row_update_nth[of i "\<lambda>j x. exp (x - ?mv)" "cols T" T]
  note r2 = row_update_nth[of i "\<lambda>j x. x / ?s" "cols T" ?T1]
  from c len have "\<not> length (data T) \<le> i * cols T" by simp
  then have sr: "softmax_row i T = Inr ?T2"
    unfolding softmax_row_def row_max_def[symmetric] Let_def
    using exp_loop[OF len, of ?mv 0, unfolded Let_def]
    by (simp add: row_exp_sum_def)
  show thesis
  proof (rule that[OF sr])
    show "rows ?T2 = rows T" "cols ?T2 = cols T" "length (data ?T2) = length (data T)"
      using r1 r2 by simp_all
    fix k assume k: "k < length (data T)"
    with r1 have k1: "k < length (data ?T1)" by simp
    from r1 have c1: "cols ?T1 = cols T" by simp
    from r2 k1 c1 have "data ?T2 ! k =
        (if i * cols T \<le> k \<and> k < i * cols T + cols T then data ?T1 ! k / ?s else data ?T1 ! k)"
      by simp
    with r1 k show "data ?T2 ! k =
        (if i * cols T \<le> k \<and> k < i * cols T + cols T
         then exp (data T ! k - ?mv) / ?s else data T ! k)"
      by simp
  qed
qed

lemma row_of_index:
  assumes "n * c \<le> k" "k < n * c + c"
  shows "k div c = n" "k mod c = k - n * (c::nat)"
proof -
  from assms obtain j where j: "k = n * c + j" "j < c"
    by (metis add_diff_inverse_nat nat_add_left_cancel_less not_less)
  then show "k div c = n" "k mod c = k - n * c" by simp_all
qed

lemma softmax_loop:
  assumes wf: "wf_tensor X" and c: "0 < cols X" and n: "n \<le> rows X"
  shows "\<exists>T. for_each [0..<n] softmax_row X = Inr T \<and>
           rows T = rows X \<and> cols T = cols X \<and> length (data T) = length (data X) \<and>
           (\<forall>k<length (data X). data T ! k =
              (if k < n * cols X
               then exp (data X ! k - row_max X (k div cols X)) / row_exp_sum X (k div cols X)
               else data X ! k))"
  using n
proof (induction n)
  case 0
  then show ?case by simp
next
  case (Suc n)
  let ?c = "cols X"
  from Suc obtain T where T: "for_each [0..<n] softmax_row X = Inr T"
    and sh: "rows T = rows X" "cols T = ?c" "length (data T) = length (data X)"
    and nth: "\<And>k. k < length (data X) \<Longrightarrow> data T ! k =
              (if k < n * ?c
               then exp (data X ! k - row_max X (k div ?c)) / row_exp_sum X (k div ?c)
               else data X ! k)"
    by auto
  from Suc.prems have nr: "n < rows X" by simp
  have len: "n * cols T + cols T \<le> length (data T)"
  proof -
    from nr have "Suc n * ?c \<le> rows X * ?c" by (intro mult_le_mono1) simp
    with wf sh show ?thesis by (simp add: wf_tensor_def)
  qed
  have c': "0 < cols T" using c sh by simp
  have rowT: "cell T n j = cell X n j" if "j < ?c" for j
  proof -
    from that len sh have "n * ?c + j < length (data X)" by simp
    with nth[of "n * ?c + j"] sh show ?thesis by (simp add: cell_def)
  qed
  have mx: "row_max T n = row_max X n" using sh rowT c by (intro row_max_cong) simp_all
  have sm: "row_exp_sum T n = row_exp_sum X n"
    using sh rowT c by (intro row_exp_sum_cong) simp_all
  from softmax_row_nth[OF c' len] obtain T2 where
    T2: "softmax_row n T = Inr T2" "rows T2 = rows T" "cols T2 = cols T"
      "length (data T2) = length (data T)"
    and nth2: "\<And>k. k < length (data T) \<Longrightarrow> data T2 ! k =
        (if n * cols T \<le> k \<and> k < n * cols T + cols T
         then exp (data T ! k - row_max T n) / row_exp_sum T n else data T ! k)"
    by blast
  have "data T2 ! k =
          (if k < Suc n * ?c
           then exp (data X ! k - row_max X (k div ?c)) / row_exp_sum X (k div ?c)
           else data X ! k)" if k: "k < length (data X)" for k
  proof (cases "n * ?c \<le> k \<and> k < n * ?c + ?c")
    case True
    then have "k div ?c = n" using row_of_index(1)[of n ?c k] by simp
    moreover from True have "\<not> k < n * ?c" by simp
    ultimately show ?thesis using nth2[of k] nth[of k] k sh True mx sm by simp
  next
    case False
    then have "k < Suc n * ?c \<longleftrightarrow> k < n * ?c" by auto
    with False nth2[of k] nth[of k] k sh show ?thesis by simp
  qed
  with T T2 sh show ?case by (simp add: for_each_snoc)
qed

lemma softmax_identity_pass:
  assumes "act_type a = SOFTMAX" "wf_tensor X"
  shows "fold (\<lambda>i. fold (\<lambda>j Y. set_cell Y i j (activate a (cell X i j))) [0..<cols X])
           [0..<rows X] (Tensor2 (rows X) (cols X)) = X"
proof -
  let ?T = "Tensor2 (rows X) (cols X)"
  let ?h = "\<lambda>i j (x::real). activate a (cell X i j)"
  let ?Y = "fold (\<lambda>i. fold (\<lambda>j C. set_cell C i j (?h i j (cell C i j))) [0..<cols ?T])
                  [0..<rows ?T] ?T"
  have wfT: "wf_tensor ?T" by simp
  note cl = cells_loop[where h = ?h and T = ?T, OF wfT]
  from cl have sh: "rows ?Y = rows X" "cols ?Y = cols X" "wf_tensor ?Y" by simp_all
  have cells: "cell ?Y i j = cell X i j" if "i < rows X" "j < cols X" for i j
    using cl(4)[of i j] that assms(1) by (simp add: activate_def)
  have "data ?Y = data X"
  proof (rule nth_equalityI)
    show "length (data ?Y) = length (data X)"
      using sh assms(2) by (simp add: wf_tensor_def)
    fix k assume "k < length (data ?Y)"
    with sh have k: "k < rows X * cols X" by (simp add: wf_tensor_def)
    then have c: "0 < cols X" by (cases "cols X") simp_all
    from k have i: "k div cols X < rows X"
      by (simp add: less_mult_imp_div_less)
    from c have j: "k mod cols X < cols X" by simp
    from cells[OF i j] sh show "data ?Y ! k = data X ! k"
      by (simp add: cell_def)
  qed
  with sh have "?Y = X" by (intro Tensor.equality) simp_all
  then show ?thesis by simp
qed

lemma row_exp_sum_pos: "0 < cols T \<Longrightarrow> 0 < row_exp_sum T i"
  unfolding row_exp_sum_def by (intro sum_pos) auto

lemma softmax_rows_core:
  assumes "act_type a = SOFTMAX" and wf: "wf_tensor X" and c: "0 < cols X"
  shows "\<exists>Y a'. act_forward a X = Inr (Y, a') \<and>
           rows Y = rows X \<and> cols Y = cols X \<and> wf_tensor Y \<and> output_cache a' = Y \<and>
           (\<forall>i<rows X. \<forall>j<cols X.
              cell Y i j =
                exp (cell X i j - Max (cell X i ` {..<cols X})) /
                (\<Sum>k<cols X. exp (cell X i k - Max (cell X i ` {..<cols X}))) \<and>
              0 \<le> cell Y i j) \<and>
           (\<forall>i<rows X. (\<Sum>j<cols X. cell Y i j) = 1)"
proof -
  from softmax_loop[OF wf c, of "rows X"] obtain Y where
    Y: "softmax X = Inr Y" and sh: "rows Y = rows X" "cols Y = cols X"
      "length (data Y) = length (data X)"
    and nth: "\<And>k. k < length (data X) \<Longrightarrow> data Y ! k =
              (if k < rows X * cols X
               then exp (data X ! k - row_max X (k div cols X)) / row_exp_sum X (k div cols X)
               else data X ! k)"
    by (auto simp add: softmax_def)
  let ?a' = "a\<lparr>act_input_cache := X, output_cache := Y\<rparr>"
  have fw: "act_forward a X = Inr (Y, ?a')"
    using assms(1) Y softmax_identity_pass[OF assms(1) wf]
    by (simp add: act_forward_def Let_def)
  have wfY: "wf_tensor Y" using sh wf by (simp add: wf_tensor_def)
  have cellY: "cell Y i j = exp (cell X i j - row_max X i) / row_exp_sum X i"
    if ij: "i < rows X" "j < cols X" for i j
  proof -
    have k: "i * cols X + j < rows X * cols X" using ij by (rule cell_index_less)
    with nth[of "i * cols X + j"] wf ij sh show ?thesis
      by (simp add: cell_def wf_tensor_def)
  qed
  have mx: "row_max X i = Max (cell X i ` {..<cols X})" for i
    using c by (rule row_max_Max)
  have c1: "\<forall>i<rows X. \<forall>j<cols X.
              cell Y i j =
                exp (cell X i j - Max (cell X i ` {..<cols X})) /
                (\<Sum>k<cols X. exp (cell X i k - Max (cell X i ` {..<cols X}))) \<and>
              0 \<le> cell Y i j"
  proof (intro allI impI)
    fix i j assume ij: "i < rows X" "j < cols X"
    from row_exp_sum_pos[OF c, of i]
    have "0 \<le> exp (cell X i j - row_max X i) / row_exp_sum X i" by simp
    with cellY[OF ij]
    show "cell Y i j =
                exp (cell X i j - Max (cell X i ` {..<cols X})) /
                (\<Sum>k<cols X. exp (cell X i k - Max (cell X i ` {..<cols X}))) \<and>
              0 \<le> cell Y i j"
      by (simp add: row_exp_sum_def mx)
  qed
  have c2: "\<forall>i<rows X. (\<Sum>j<cols X. cell Y i j) = 1"
  proof (intro allI impI)
    fix i assume i: "i < rows X"
    have "(\<Sum>j<cols X. cell Y i j) =
          (\<Sum>j<cols X. exp (cell X i j - row_max X i) / row_exp_sum X i)"
      using cellY[OF i] by (intro sum.cong) simp_all
    also have "\<dots> = row_exp_sum X i / row_exp_sum X i"
      by (simp add: row_exp_sum_def flip: sum_divide_distrib)
    also have "\<dots> = 1" using row_exp_sum_pos[OF c, of i] by simp
    finally show "(\<Sum>j<cols X. cell Y i j) = 1" .
  qed
  have oc: "output_cache ?a' = Y" by simp
  from fw sh(1,2) wfY oc c1 c2 show ?thesis by blast
qed

lemma softmax_no_columns:
  assumes "act_type a = SOFTMAX" and wf: "wf_tensor X" and c: "cols X = 0" and r: "0 < rows X"
  shows "act_forward a X = Inl OutOfBounds"
proof -
  from wf c have d: "data X = []" by (simp add: wf_tensor_def)
  from r have u: "[0..<rows X] = 0 # [1..<rows X]" by (simp add: upt_conv_Cons)
  have "softmax X = Inl OutOfBounds"
    unfolding softmax_def u by (simp add: softmax_row_def d)
  then show ?thesis
    using assms(1) softmax_identity_pass[OF assms(1) wf]
    by (simp add: act_forward_def Let_def)
qed

text \<open>
  Claim C5, as stated for every input tensor, fails on a tensor that has rows but no
  columns: each row starts by reading its first entry, which such a tensor does not have.
\<close>

theorem softmax_without_columns:
  "act_forward (Activation_new SOFTMAX) \<lparr>rows = 1, cols = 0, data = []\<rparr> = Inl OutOfBounds"
  by (simp add: act_forward_def Activation_new_def softmax_def softmax_row_def Tensor2_def)

text \<open>
  Claim C5, amended.  For a well-formed input with at least one column, the softmax
  forward pass returns the tensor whose row \<open>i\<close> is \<open>exp (x - max) / sum\<close>, with \<open>max\<close> the
  maximum of row \<open>i\<close> of the input and \<open>sum\<close> the sum of the exponentials of that row;
  every row of it sums to one and no entry is negative.  For a well-formed input with
  rows and no columns the pass ends in a read outside the buffer.  Nothing is said on
  whether an entry can be zero: a \<^verbatim>\<open>float\<close> exponential of a very negative number is.
\<close>

theorem softmax_forward_rows:
  assumes "act_type a = SOFTMAX" and wf: "wf_tensor X"
  shows "(0 < cols X \<longrightarrow>
            (\<exists>Y a'. act_forward a X = Inr (Y, a') \<and>
               rows Y = rows X \<and> cols Y = cols X \<and> wf_tensor Y \<and> output_cache a' = Y \<and>
               (\<forall>i<rows X. \<forall>j<cols X.
                  cell Y i j =
                    exp (cell X i j - Max (cell X i ` {..<cols X})) /
                    (\<Sum>k<cols X. exp (cell X i k - Max (cell X i ` {..<cols X}))) \<and>
                  0 \<le> cell Y i j) \<and>
               (\<forall>i<rows X. (\<Sum>j<cols X. cell Y i j) = 1))) \<and>
         (cols X = 0 \<and> 0 < rows X \<longrightarrow> act_forward a X = Inl OutOfBounds)"
  using softmax_rows_core[OF assms] softmax_no_columns[OF assms] by blast

theorem softmax_forward_rows_witness:
  "wf_tensor example_row \<and> 0 < cols example_row \<and>
   (\<exists>Y a'. act_forward (Activation_new SOFTMAX) example_row = Inr (Y, a') \<and>
      rows Y = rows example_row \<and> cols Y = cols example_row \<and> wf_tensor Y \<and>
      output_cache a' = Y \<and>
      (\<forall>i<rows example_row. \<forall>j<cols example_row.
         cell Y i j =
           exp (cell example_row i j - Max (cell example_row i ` {..<cols example_row})) /
           (\<Sum>k<cols example_row.
              exp (cell example_row i k - Max (cell example_row i ` {..<cols example_row}))) \<and>
         0 \<le> cell Y i j) \<and>
      (\<forall>i<rows example_row. (\<Sum>j<cols example_row. cell Y i j) = 1)) \<and>
   wf_tensor example_no_columns \<and> cols example_no_columns = 0 \<and> 0 < rows example_no_columns \<and>
   act_forward (Activation_new SOFTMAX) example_no_columns = Inl OutOfBounds"
proof -
  have h1: "act_type (Activation_new SOFTMAX) = SOFTMAX" by (simp add: Activation_new_def)
  have h2: "wf_tensor example_row" by (simp add: wf_tensor_def example_row_def)
  have h3: "0 < cols example_row" by (simp add: example_row_def)
  have k2: "wf_tensor example_no_columns" by (simp add: wf_tensor_def example_no_columns_def)
  have k3: "cols example_no_columns = 0 \<and> 0 < rows example_no_columns"
    by (simp add: example_no_columns_def)
  note t1 = softmax_forward_rows[OF h1 h2, THEN conjunct1, rule_format, OF h3]
  note t2 = softmax_forward_rows[OF h1 k2, THEN conjunct2, rule_format, OF k3]
  from t1 t2 h2 h3 k2 k3 show ?thesis by blast
qed

section \<open>Model: what fit changes\<close>

lemma same_store_params_refl: "same_store_params st st"
  by (simp add: same_store_params_def same_params_def)

lemma same_store_params_trans:
  "same_store_params st st1 \<Longrightarrow> same_store_params st1 st2 \<Longrightarrow> same_store_params st st2"
  by (simp add: same_store_params_def same_params_def)

lemma same_store_params_upd:
  "same_params (st a) l' \<Longrightarrow> same_store_params st (st(a := l'))"
  by (simp add: same_store_params_def same_params_def)

lemma dense_forward_params: "dense_forward l X = Inr (Y, l') \<Longrightarrow> same_params l l'"
  using dense_forward_result[of l X Y l'] by (simp add: same_params_def)

lemma dense_backward_params: "dense_backward l g = Inr (dX, l') \<Longrightarrow> same_params l l'"
  by (auto simp add: dense_backward_def sync_gradients_def same_params_def Let_def
      split: if_splits sum.splits)

lemma forward_layers_params:
  "forward_layers as st x = Inr (y, st') \<Longrightarrow> same_store_params st st'"
proof (induction as arbitrary: st x)
  case Nil
  then show ?case by (simp add: same_store_params_refl)
next
  case (Cons a as)
  from Cons.prems obtain x' l' where
    f: "dense_forward (st a) x = Inr (x', l')" and
    r: "forward_layers as (st(a := l')) x' = Inr (y, st')"
    by (auto split: sum.splits)
  from same_store_params_upd[of st a l', OF dense_forward_params[OF f]] Cons.IH[OF r]
  show ?case by (rule same_store_params_trans)
qed

lemma backward_layers_params:
  "backward_layers as st g = Inr st' \<Longrightarrow> same_store_params st st'"
proof (induction as arbitrary: st g)
  case Nil
  then show ?case by (simp add: same_store_params_refl)
next
  case (Cons a as)
  from Cons.prems obtain g' l' where
    f: "dense_backward (st a) g = Inr (g', l')" and
    r: "backward_layers as (st(a := l')) g' = Inr st'"
    by (auto split: sum.splits)
  from same_store_params_upd[of st a l', OF dense_backward_params[OF f]] Cons.IH[OF r]
  show ?case by (rule same_store_params_trans)
qed

lemma fit_example_params:
  assumes "fit_example M L X y i (st, el, c) = Inr (st', el', c')"
  shows "same_store_params st st'"
proof -
  from assms obtain outp st1 g st2 where
    f: "forward_internal M st (X ! i) = Inr (outp, st1)" and
    b: "backward_internal M st1 g = Inr st2" and
    s: "st' = optimizer_step M st2"
    by (auto simp add: fit_example_def Let_def split: sum.splits if_splits)
  from f have "same_store_params st st1"
    unfolding forward_internal_def by (rule forward_layers_params)
  moreover from b have "same_store_params st1 st2"
    unfolding backward_internal_def by (rule backward_layers_params)
  ultimately show ?thesis using s
    by (auto simp add: optimizer_step_def intro: same_store_params_trans)
qed

lemma fit_epoch_params:
  assumes "fit_epoch M L X y e (st, out) = Inr (st', out')"
  shows "same_store_params st st'"
proof -
  from assms obtain el c where
    l: "for_each [0..<length X] (fit_example M L X y) (st, 0, 0) = Inr (st', el, c)"
    by (auto simp add: fit_epoch_def split: sum.splits)
  have "same_store_params st (fst (st', el, c))"
  proof (rule for_each_invariant[OF l, where P = "\<lambda>s. same_store_params st (fst s)"])
    show "same_store_params st (fst (st, 0::real, 0::int))" by (simp add: same_store_params_refl)
  next
    fix x t t'
    assume p: "same_store_params st (fst t)" and s: "fit_example M L X y x t = Inr t'"
    obtain a b c where t: "t = (a, b, c)" by (cases t)
    obtain a' b' c' where t': "t' = (a', b', c')" by (cases t')
    from fit_example_params[OF s[unfolded t t']] p t t'
    show "same_store_params st (fst t')" by (auto intro: same_store_params_trans)
  qed
  then show ?thesis by simp
qed

lemma fit_params:
  assumes "fit M st X y epochs batch_size = Inr (st', out)"
  shows "same_store_params st st'"
proof -
  from assms obtain L where
    l: "for_each [0..<nat epochs] (fit_epoch M L X y) (st, []) = Inr (st', out)"
    by (auto simp add: fit_def split: option.splits)
  have "same_store_params st (fst (st', out))"
  proof (rule for_each_invariant[OF l, where P = "\<lambda>s. same_store_params st (fst s)"])
    show "same_store_params st (fst (st, []))" by (simp add: same_store_params_refl)
  next
    fix x t t'
    assume p: "same_store_params st (fst t)" and s: "fit_epoch M L X y x t = Inr t'"
    obtain a b where t: "t = (a, b)" by (cases t)
    obtain a' b' where t': "t' = (a', b')" by (cases t')
    from fit_epoch_params[OF s[unfolded t t']] p t t'
    show "same_store_params st (fst t')" by (auto intro: same_store_params_trans)
  qed
  then show ?thesis by simp
qed

lemma example_forward_internal:
  "forward_internal example_model example_store example_input =
     Inr (example_output, example_store(0 := example_layer_fwd))"
  using example_forward
  by (simp add: forward_internal_def example_model_def compile_def add_def Model_new_def
      example_store_def)

lemma example_loss_forward:
  "loss_forward example_loss example_output [0] None = Inr (- ln 7)"
  by (simp add: loss_forward_def example_loss_def Loss_new_def example_output_def
      sparse_categorical_cross_entropy_def label_index_def Let_def)

lemma example_argmax: "argmax example_output = Inr 0"
  by (simp add: argmax_def argmax_scan_def example_output_def cell_def)

lemma example_loss_backward:
  "loss_backward example_loss example_output [0] None = Inr example_grad"
  by (simp add: example_grad_def loss_backward_def example_loss_def Loss_new_def example_output_def
      sparse_categorical_cross_entropy_backward_def scce_row_def sub_label_def
      label_index_def Let_def Tensor2_def set_cell_def cell_def)

lemma example_dense_backward:
  "dense_backward example_layer_fwd example_grad =
     Inr (\<lparr>rows = 1, cols = 1, data = [12]\<rparr>, example_layer_bwd)"
  by (simp add: example_grad_def example_layer_bwd_def example_layer_def example_input_def example_output_def
      example_layer_fwd_def dense_backward_def act_backward_def derivative_def
      transpose_t_def bias_grad_def sync_gradients_def matmul_def Tensor2_def Let_def
      set_cell_def cell_def DenseLayer_new_def Activation_new_def Tensor0_def)

lemma example_backward_internal:
  "backward_internal example_model (example_store(0 := example_layer_fwd)) example_grad =
     Inr (example_store(0 := example_layer_bwd))"
  using example_dense_backward
  by (simp add: backward_internal_def example_model_def compile_def add_def Model_new_def)

lemma example_fit:
  "fit example_model example_store [example_input] [0] 1 1 =
     Inr (example_store(0 := example_layer_bwd), [(1, - ln 7, 1)])"
proof -
  have ex: "fit_example example_model example_loss [example_input] [0] 0 (example_store, 0, 0) =
      Inr (example_store(0 := example_layer_bwd), - ln 7, 1)"
    by (simp add: fit_example_def example_forward_internal example_loss_forward example_argmax
        example_loss_backward example_backward_internal optimizer_step_def)
  have ep: "fit_epoch example_model example_loss [example_input] [0] 0 (example_store, []) =
      Inr (example_store(0 := example_layer_bwd), [(1, - ln 7, 1)])"
    by (simp add: fit_epoch_def ex)
  have m: "loss_fn example_model = Some example_loss" "optimizer example_model = Some 0"
    by (simp_all add: example_model_def compile_def)
  show ?thesis by (simp add: fit_def m ep)
qed

text \<open>
  Claim C8.  When \<^verbatim>\<open>fit\<close> returns, the weight matrix and the bias vector of every
  layer are what they were before the call, in the layer's own buffers \<open>W\<close> and \<open>b\<close> and
  in the data buffers of \<open>W_param\<close> and \<open>b_param\<close>, and so is the configuration of its
  activation; what is left to change are the gradient buffers and the caches.  The update
  hook returns the store it is given.
\<close>

theorem fit_leaves_parameters:
  assumes "fit M st X y epochs batch_size = Inr (st', out)"
  shows "W (st' a) = W (st a) \<and> b_vec (st' a) = b_vec (st a) \<and>
         param_data (W_param (st' a)) = param_data (W_param (st a)) \<and>
         param_data (b_param (st' a)) = param_data (b_param (st a)) \<and>
         act_type (activation (st' a)) = act_type (activation (st a)) \<and>
         alpha (activation (st' a)) = alpha (activation (st a)) \<and>
         beta (activation (st' a)) = beta (activation (st a)) \<and>
         optimizer_step M st' = st'"
  using fit_params[OF assms]
  by (simp add: same_store_params_def same_params_def optimizer_step_def)

theorem fit_leaves_parameters_witness:
  "fit example_model example_store [example_input] [0] 1 1 =
     Inr (example_store(0 := example_layer_bwd), [(1, - ln 7, 1)]) \<and>
   W (example_layer_bwd) = W example_layer \<and> b_vec example_layer_bwd = b_vec example_layer \<and>
   param_data (W_param example_layer_bwd) = param_data (W_param example_layer) \<and>
   param_data (b_param example_layer_bwd) = param_data (b_param example_layer) \<and>
   grad_b example_layer_bwd \<noteq> grad_b example_layer"
proof -
  have "grad_b example_layer_bwd \<noteq> grad_b example_layer"
    by (simp add: example_layer_bwd_def example_layer_fwd_def example_layer_def DenseLayer_new_def)
  with fit_leaves_parameters[OF example_fit, of 0] example_fit show ?thesis
    by (simp add: example_store_def)
qed

section \<open>Model: calls before compile\<close>

text \<open>
  Claim C9.  A model that has only been constructed and given layers has neither a loss
  nor an optimizer; \<^verbatim>\<open>fit\<close> and \<^verbatim>\<open>evaluate\<close> on it end in a failed assertion.
\<close>

theorem uncompiled_model_fails_fast:
  "fit (foldl add Model_new ls) st X y epochs batch_size = Inl AssertionFailed \<and>
   evaluate (foldl add Model_new ls) st X y = Inl AssertionFailed"
proof -
  have "loss_fn (foldl add M ls) = loss_fn M \<and> optimizer (foldl add M ls) = optimizer M" for M
    by (induction ls arbitrary: M) (simp_all add: add_def)
  from this[of Model_new] show ?thesis
    by (simp add: fit_def evaluate_def Model_new_def)
qed

section \<open>Model and Loss: the dense target\<close>

lemma for_each_no_fault:
  assumes "\<And>x t. body x t \<noteq> Inl e"
  shows "for_each xs body s \<noteq> Inl e"
  using assms by (induction xs arbitrary: s) (auto split: sum.splits)

lemma dense_forward_no_null: "dense_forward l X \<noteq> Inl NullPointer"
proof -
  have sm: "softmax Y \<noteq> Inl NullPointer" for Y
    unfolding softmax_def
    by (rule for_each_no_fault) (simp add: softmax_row_def Let_def split_def)
  have "act_forward a Y \<noteq> Inl NullPointer" for a Y
    using sm by (auto simp add: act_forward_def Let_def split: sum.splits)
  then show ?thesis
    by (auto simp add: dense_forward_def matmul_def add_bias_def split: sum.splits if_splits)
qed

lemma dense_backward_no_null: "dense_backward l g \<noteq> Inl NullPointer"
  by (auto simp add: dense_backward_def act_backward_def matmul_def Let_def
      split: sum.splits if_splits)

lemma forward_layers_no_null: "forward_layers as st x \<noteq> Inl NullPointer"
  using dense_forward_no_null
  by (induction as arbitrary: st x) (auto split: sum.splits)

lemma backward_layers_no_null: "backward_layers as st g \<noteq> Inl NullPointer"
  using dense_backward_no_null
  by (induction as arbitrary: st g) (auto split: sum.splits)

lemma argmax_no_null: "argmax A \<noteq> Inl NullPointer"
  by (simp add: argmax_def Let_def)

lemma label_index_no_null: "label_index A i y \<noteq> Inl NullPointer"
  by (simp add: label_index_def Let_def)

lemma sparse_forward_no_null: "sparse_categorical_cross_entropy L p y \<noteq> Inl NullPointer"
proof -
  have "for_each xs (\<lambda>i loss. case label_index p i y of Inl e \<Rightarrow> Inl e
           | Inr k \<Rightarrow> let q = max (data p ! k) (eps L) in Inr (loss + - ln q)) s
        \<noteq> Inl NullPointer" for xs and s :: real
    using label_index_no_null[of p _ y]
    by (intro for_each_no_fault) (auto split: sum.splits simp add: Let_def)
  then show ?thesis
    by (auto simp add: sparse_categorical_cross_entropy_def split: sum.splits)
qed

lemma sparse_backward_no_null: "sparse_categorical_cross_entropy_backward p y \<noteq> Inl NullPointer"
proof -
  have "scce_row p y i g \<noteq> Inl NullPointer" for i g
    using label_index_no_null
    by (auto simp add: scce_row_def sub_label_def split: sum.splits)
  then have "for_each xs (scce_row p y) s \<noteq> Inl NullPointer" for xs s
    by (intro for_each_no_fault)
  then show ?thesis
    by (auto simp add: sparse_categorical_cross_entropy_backward_def split: sum.splits)
qed

lemma sparse_loss_no_null:
  assumes "loss_type L = SPARSE_CATEGORICAL_CROSS_ENTROPY"
  shows "loss_forward L p y d \<noteq> Inl NullPointer" "loss_backward L p y d \<noteq> Inl NullPointer"
  using assms sparse_forward_no_null sparse_backward_no_null
  by (simp_all add: loss_forward_def loss_backward_def)

lemma dense_loss_null:
  assumes "loss_type L \<noteq> SPARSE_CATEGORICAL_CROSS_ENTROPY"
  shows "loss_forward L p y None = Inl NullPointer" "loss_backward L p y None = Inl NullPointer"
  using assms by (cases "loss_type L"; simp add: loss_forward_def loss_backward_def)+

lemma fit_example_no_null:
  assumes "loss_type L = SPARSE_CATEGORICAL_CROSS_ENTROPY"
  shows "fit_example M L X y i s \<noteq> Inl NullPointer"
  using sparse_loss_no_null[OF assms] forward_layers_no_null backward_layers_no_null
    argmax_no_null
  by (auto simp add: fit_example_def forward_internal_def backward_internal_def Let_def
      split: sum.splits prod.splits if_splits)

lemma evaluate_example_no_null:
  assumes "loss_type L = SPARSE_CATEGORICAL_CROSS_ENTROPY"
  shows "evaluate_example M L X y i s \<noteq> Inl NullPointer"
  using sparse_loss_no_null[OF assms] forward_layers_no_null argmax_no_null
  by (auto simp add: evaluate_example_def forward_internal_def Let_def
      split: sum.splits prod.splits if_splits)

lemma fit_no_null:
  assumes "loss_fn M = Some L" "loss_type L = SPARSE_CATEGORICAL_CROSS_ENTROPY"
  shows "fit M st X y epochs batch_size \<noteq> Inl NullPointer"
proof -
  have ex: "for_each xs (fit_example M L X y) s \<noteq> Inl NullPointer" for xs s
    using fit_example_no_null[OF assms(2)] by (intro for_each_no_fault)
  have "fit_epoch M L X y e s \<noteq> Inl NullPointer" for e s
    using ex by (auto simp add: fit_epoch_def split: sum.splits prod.splits)
  then have "for_each xs (fit_epoch M L X y) s \<noteq> Inl NullPointer" for xs s
    by (intro for_each_no_fault)
  then show ?thesis using assms(1)
    by (auto simp add: fit_def split: option.splits)
qed

lemma evaluate_no_null:
  assumes "loss_fn M = Some L" "loss_type L = SPARSE_CATEGORICAL_CROSS_ENTROPY"
  shows "evaluate M st X y \<noteq> Inl NullPointer"
proof -
  have "for_each xs (evaluate_example M L X y) s \<noteq> Inl NullPointer" for xs s
    using evaluate_example_no_null[OF assms(2)] by (intro for_each_no_fault)
  then show ?thesis using assms(1)
    by (auto simp add: evaluate_def split: sum.splits prod.splits)
qed

lemma dense_loss_reached:
  assumes L: "loss_type L \<noteq> SPARSE_CATEGORICAL_CROSS_ENTROPY"
    and X: "X \<noteq> []" and y: "y \<noteq> []"
    and f: "forward_internal M st (X ! 0) = Inr (outp, st1)"
  shows "for_each [0..<length X] (fit_example M L X y) (st, 0, 0) = Inl NullPointer"
    "for_each [0..<length X] (evaluate_example M L X y) (st, 0, 0) = Inl NullPointer"
proof -
  from X have u: "[0..<length X] = 0 # [1..<length X]" by (simp add: upt_conv_Cons)
  from y have ly: "\<not> length y \<le> 0" by simp
  have "fit_example M L X y 0 (st, 0, 0) = Inl NullPointer"
    using f ly dense_loss_null(1)[OF L] by (simp add: fit_example_def Let_def)
  then show "for_each [0..<length X] (fit_example M L X y) (st, 0, 0) = Inl NullPointer"
    unfolding u by simp
  have "evaluate_example M L X y 0 (st, 0, 0) = Inl NullPointer"
    using f ly dense_loss_null(1)[OF L] by (simp add: evaluate_example_def Let_def)
  then show "for_each [0..<length X] (evaluate_example M L X y) (st, 0, 0) = Inl NullPointer"
    unfolding u by simp
qed

lemma example_dense_forward_internal:
  "forward_internal example_dense_model example_store ([example_input] ! 0) =
     Inr (example_output, example_store(0 := example_layer_fwd))"
  using example_forward
  by (simp add: forward_internal_def example_dense_model_def compile_def add_def Model_new_def
      example_store_def)

text \<open>
  Claim C10.  \<^verbatim>\<open>fit\<close> and \<^verbatim>\<open>evaluate\<close> call the loss with the label vector only, so the
  dense target is the null pointer.  The three kinds other than sparse categorical
  cross-entropy dereference it in \<^verbatim>\<open>forward\<close> and in \<^verbatim>\<open>backward\<close>.  With the sparse
  kind neither \<^verbatim>\<open>fit\<close> nor \<^verbatim>\<open>evaluate\<close> can end in a null dereference; with any other
  kind they do as soon as the first example has passed through the layers.
\<close>

theorem dense_target_always_null:
  "(loss_type L \<noteq> SPARSE_CATEGORICAL_CROSS_ENTROPY \<longrightarrow>
      loss_forward L pred labels None = Inl NullPointer \<and>
      loss_backward L pred labels None = Inl NullPointer) \<and>
   (loss_fn M = Some L \<and> loss_type L = SPARSE_CATEGORICAL_CROSS_ENTROPY \<longrightarrow>
      fit M st X y epochs batch_size \<noteq> Inl NullPointer \<and>
      evaluate M st X y \<noteq> Inl NullPointer) \<and>
   (loss_fn M = Some L \<and> optimizer M = Some opt \<and>
    loss_type L \<noteq> SPARSE_CATEGORICAL_CROSS_ENTROPY \<and>
    0 < epochs \<and> X \<noteq> [] \<and> y \<noteq> [] \<and>
    forward_internal M st (X ! 0) = Inr (outp, st1) \<longrightarrow>
      fit M st X y epochs batch_size = Inl NullPointer \<and>
      evaluate M st X y = Inl NullPointer)"
proof (intro conjI impI)
  assume "loss_type L \<noteq> SPARSE_CATEGORICAL_CROSS_ENTROPY"
  then show "loss_forward L pred labels None = Inl NullPointer"
    "loss_backward L pred labels None = Inl NullPointer"
    by (rule dense_loss_null)+
next
  assume a: "loss_fn M = Some L \<and> loss_type L = SPARSE_CATEGORICAL_CROSS_ENTROPY"
  then show "fit M st X y epochs batch_size \<noteq> Inl NullPointer"
    using fit_no_null by blast
  from a show "evaluate M st X y \<noteq> Inl NullPointer"
    using evaluate_no_null by blast
next
  assume a: "loss_fn M = Some L \<and> optimizer M = Some opt \<and>
    loss_type L \<noteq> SPARSE_CATEGORICAL_CROSS_ENTROPY \<and>
    0 < epochs \<and> X \<noteq> [] \<and> y \<noteq> [] \<and>
    forward_internal M st (X ! 0) = Inr (outp, st1)"
  then have r: "for_each [0..<length X] (fit_example M L X y) (st, 0, 0) = Inl NullPointer"
    "for_each [0..<length X] (evaluate_example M L X y) (st, 0, 0) = Inl NullPointer"
    using dense_loss_reached[of L X y M st outp st1] by simp_all
  from a have u: "[0..<nat epochs] = 0 # [1..<nat epochs]" by (simp add: upt_conv_Cons)
  have "fit_epoch M L X y 0 (st, []) = Inl NullPointer"
    by (simp add: fit_epoch_def r)
  then show "fit M st X y epochs batch_size = Inl NullPointer"
    using a unfolding fit_def u by simp
  show "evaluate M st X y = Inl NullPointer"
    using a r by (simp add: evaluate_def)
qed

theorem dense_target_always_null_witness:
  "loss_forward (Loss_new MEAN_SQUARED_ERROR 0) example_output [0] None = Inl NullPointer \<and>
   loss_backward (Loss_new MEAN_SQUARED_ERROR 0) example_output [0] None = Inl NullPointer \<and>
   fit example_model example_store [example_input] [0] 1 1 \<noteq> Inl NullPointer \<and>
   evaluate example_model example_store [example_input] [0] \<noteq> Inl NullPointer \<and>
   fit example_dense_model example_store [example_input] [0] 1 1 = Inl NullPointer \<and>
   evaluate example_dense_model example_store [example_input] [0] = Inl NullPointer"
proof -
  let ?L = "Loss_new MEAN_SQUARED_ERROR 0"
  have k: "loss_type ?L \<noteq> SPARSE_CATEGORICAL_CROSS_ENTROPY" by (simp add: Loss_new_def)
  have m: "loss_fn example_dense_model = Some ?L" "optimizer example_dense_model = Some 0"
    by (simp_all add: example_dense_model_def compile_def)
  have s: "loss_fn example_model = Some example_loss"
    "loss_type example_loss = SPARSE_CATEGORICAL_CROSS_ENTROPY"
    by (simp_all add: example_model_def compile_def example_loss_def Loss_new_def)
  note t1 = dense_target_always_null[where L = "?L" and pred = example_output and labels = "[0]"
      and M = example_dense_model and opt = 0 and X = "[example_input]" and y = "[0]"
      and st = example_store and epochs = 1 and batch_size = 1 and outp = example_output
      and ?st1.0 = "example_store(0 := example_layer_fwd)"]
  note t2 = dense_target_always_null[where L = example_loss and pred = example_output
      and labels = "[0]" and M = example_model and opt = 0 and X = "[example_input]"
      and y = "[0]" and st = example_store and epochs = 1 and batch_size = 1
      and outp = example_output and ?st1.0 = "example_store(0 := example_layer_fwd)"]
  from t1 k m example_dense_forward_internal
  have a: "loss_forward ?L example_output [0] None = Inl NullPointer"
    "loss_backward ?L example_output [0] None = Inl NullPointer"
    "fit example_dense_model example_store [example_input] [0] 1 1 = Inl NullPointer"
    "evaluate example_dense_model example_store [example_input] [0] = Inl NullPointer"
    by simp_all
  from t2 s
  have b: "fit example_model example_store [example_input] [0] 1 1 \<noteq> Inl NullPointer"
    "evaluate example_model example_store [example_input] [0] \<noteq> Inl NullPointer"
    by simp_all
  from a b show ?thesis by simp
qed

end
